theory Spec2Isabelle
  imports Main "HOL-Library.Multiset"
begin

section \<open>qsub.py: a PBS array job submitter\<close>

text \<open>
  The repository is one Python function, \<^verbatim>\<open>qsub(command, pbs_array_data, **kwargs)\<close>.
  It resolves an output path, creates \<^verbatim>\<open>path + 'job'\<close>, and then either runs every
  argument tuple through \<^verbatim>\<open>os.system\<close> in the current process (local mode) or
  shuffles the tuples, slices them into chunks of 1000, repairs a final chunk of
  length one, and hands one PBS script per chunk to the scheduler client.

  The embedding below follows the function statement by statement. Everything the
  function takes from its surroundings is a field of the \<open>world\<close> record: the
  platform's path separator, \<^verbatim>\<open>sys.argv[0]\<close>, the directories that exist, the
  values the random generator will draw, and the exit statuses the shell will return.
  Everything the function does to its surroundings is appended to the world's trace.
\<close>

subsection \<open>Python values and exceptions\<close>

datatype py_error = IndexError | OSError

text \<open>
  The scalars of an argument tuple: strings and integers. (A float's \<^verbatim>\<open>str\<close> is
  outside this model.)
\<close>

datatype pyval = PStr string | PInt int

definition digit_char :: "nat \<Rightarrow> char" where
  "digit_char d = char_of (48 + d)"

fun str_nat :: "nat \<Rightarrow> string" where
  "str_nat n = (if n < 10 then [digit_char n] else str_nat (n div 10) @ [digit_char (n mod 10)])"

declare str_nat.simps [simp del]

definition str_int :: "int \<Rightarrow> string" where
  "str_int i = (if i < 0 then CHR ''-'' # str_nat (nat (- i)) else str_nat (nat i))"

text \<open>\<^verbatim>\<open>str(v)\<close>\<close>

fun py_str :: "pyval \<Rightarrow> string" where
  "py_str (PStr s) = s"
| "py_str (PInt i) = str_int i"

text \<open>\<^verbatim>\<open>' '.join(ss)\<close>\<close>

fun join_sp :: "string list \<Rightarrow> string" where
  "join_sp [] = []"
| "join_sp [s] = s"
| "join_sp (s # t # ss) = s @ '' '' @ join_sp (t # ss)"

text \<open>\<^verbatim>\<open>' '.join(map(str, pbs_array_args))\<close>\<close>

definition str_args :: "pyval list \<Rightarrow> string" where
  "str_args t = join_sp (map py_str t)"

text \<open>
  \<^verbatim>\<open>xs[i]\<close> for a Python list: a negative index counts from the end, and an index
  outside the list raises \<^verbatim>\<open>IndexError\<close>.
\<close>

definition py_get :: "'a list \<Rightarrow> int \<Rightarrow> py_error + 'a" where
  "py_get xs i =
     (if 0 \<le> i \<and> i < int (length xs) then Inr (xs ! nat i)
      else if i < 0 \<and> - int (length xs) \<le> i then Inr (xs ! nat (int (length xs) + i))
      else Inl IndexError)"

text \<open>\<^verbatim>\<open>xs.pop()\<close>: the last element and the list without it.\<close>

definition py_pop :: "'a list \<Rightarrow> py_error + ('a \<times> 'a list)" where
  "py_pop xs = (if xs = [] then Inl IndexError else Inr (last xs, butlast xs))"

text \<open>\<^verbatim>\<open>xs[lo:hi]\<close> for \<open>0 \<le> lo \<le> hi\<close>.\<close>

definition py_slice :: "'a list \<Rightarrow> nat \<Rightarrow> nat \<Rightarrow> 'a list" where
  "py_slice xs lo hi = take (hi - lo) (drop lo xs)"

text \<open>\<^verbatim>\<open>range(0, n, 1000)\<close>\<close>

definition range_1000 :: "nat \<Rightarrow> nat list" where
  "range_1000 n = map (\<lambda>k. 1000 * k) [0..<(n + 999) div 1000]"

subsection \<open>Keyword arguments\<close>

text \<open>
  \<^verbatim>\<open>**kwargs\<close>: each keyword the function reads is an optional field; \<open>None\<close> is a
  keyword that was not passed.
\<close>

record kwargs =
  kw_path :: "string option"
  kw_local :: "bool option"
  kw_cd :: "string option"
  kw_N :: "pyval option"
  kw_P :: "pyval option"
  kw_q :: "pyval option"
  kw_select :: "pyval option"
  kw_ncpus :: "pyval option"
  kw_mem :: "pyval option"
  kw_walltime :: "pyval option"

definition no_kwargs :: kwargs where
  "no_kwargs = \<lparr>kw_path = None, kw_local = None, kw_cd = None, kw_N = None, kw_P = None,
     kw_q = None, kw_select = None, kw_ncpus = None, kw_mem = None, kw_walltime = None\<rparr>"

text \<open>\<^verbatim>\<open>kwargs.get(key, default)\<close>, formatted into an f-string.\<close>

definition get_str :: "pyval option \<Rightarrow> string \<Rightarrow> string" where
  "get_str v d = (case v of None \<Rightarrow> d | Some x \<Rightarrow> py_str x)"

subsection \<open>The scripts handed to the shell\<close>

text \<open>\<^verbatim>\<open>{command} {str_pbs_array_args} {path}\<close>\<close>

definition command_line :: "string \<Rightarrow> string \<Rightarrow> string \<Rightarrow> string" where
  "command_line command args path = command @ '' '' @ args @ '' '' @ path"

definition indent16 :: string where
  "indent16 = replicate 16 CHR '' ''"

text \<open>The text local mode passes to \<^verbatim>\<open>os.system\<close> (source lines 82 to 86).\<close>

definition local_script :: "string \<Rightarrow> string \<Rightarrow> string \<Rightarrow> string \<Rightarrow> string" where
  "local_script cd args command path =
     ''bash <<'' @ [CHR 0x27] @ ''END'' @ [CHR 0x27] @ ''\<newline>''
     @ indent16 @ ''cd '' @ cd @ ''\<newline>''
     @ indent16 @ ''echo '' @ [CHR 0x22] @ ''pbs_array_args = '' @ args @ [CHR 0x22] @ ''\<newline>''
     @ indent16 @ command_line command args path @ ''\<newline>''
     @ ''END''"

text \<open>
  The PBS script of one chunk (source lines 98 to 113), one field per hole of the
  template. \<open>array_lo\<close> and \<open>array_hi\<close> are the two numbers of the \<^verbatim>\<open>#PBS -J\<close>
  line, \<open>chunk_data\<close> is the chunk written into the embedded Python expression and
  \<open>base_offset\<close> the number subtracted from the runtime index there.
\<close>

record pbs_script =
  job_name :: string
  project :: string
  queue :: string
  out_dir :: string
  err_dir :: string
  select :: string
  ncpus :: string
  mem :: string
  walltime :: string
  array_lo :: int
  array_hi :: int
  chunk_data :: "pyval list list"
  base_offset :: int
  workdir :: string
  script_command :: string
  script_path :: string

datatype shell_cmd = Bash string | Qsub pbs_script

datatype event = Makedirs string | Print string | System shell_cmd int

subsection \<open>The world\<close>

record world =
  os_sep :: char
  sys_argv0 :: string
  dirs :: "string list"
  blocked :: "string list"
  randoms :: "nat list"
  statuses :: "int list"
  trace :: "event list"

text \<open>\<^verbatim>\<open>os.path.isdir(p)\<close>\<close>

definition os_path_isdir :: "world \<Rightarrow> string \<Rightarrow> bool" where
  "os_path_isdir w p = List.member (dirs w) p"

text \<open>
  \<^verbatim>\<open>os.makedirs(p)\<close>: raises when the path already exists or cannot be created
  (a path in \<open>blocked\<close>: a file of that name, a read-only parent).
\<close>

definition os_makedirs :: "world \<Rightarrow> string \<Rightarrow> (py_error \<times> world) + world" where
  "os_makedirs w p =
     (if List.member (blocked w) p \<or> List.member (dirs w) p then Inl (OSError, w)
      else Inr (w\<lparr>dirs := p # dirs w, trace := trace w @ [Makedirs p]\<rparr>))"

text \<open>
  \<^verbatim>\<open>os.system(c)\<close> runs the command and returns its exit status, here the next one
  the world holds (0 when none is left).
\<close>

definition os_system :: "world \<Rightarrow> shell_cmd \<Rightarrow> int \<times> world" where
  "os_system w c =
     (case statuses w of
        [] \<Rightarrow> (0, w\<lparr>trace := trace w @ [System c 0]\<rparr>)
      | s # ss \<Rightarrow> (s, w\<lparr>statuses := ss, trace := trace w @ [System c s]\<rparr>))"

definition py_print :: "world \<Rightarrow> string \<Rightarrow> world" where
  "py_print w s = w\<lparr>trace := trace w @ [Print s]\<rparr>"

text \<open>
  \<^verbatim>\<open>random.sample(population, len(population))\<close>. With the sample as long as the
  population the library selects from a pool: it draws \<open>j\<close> below the number of
  elements left, takes \<open>pool[j]\<close> and moves the last element left into position \<open>j\<close>.
  The draws are the world's \<open>randoms\<close> (reduced below the bound; 0 when none is left).
\<close>

fun sample_pool :: "nat \<Rightarrow> nat list \<Rightarrow> 'a list \<Rightarrow> 'a list" where
  "sample_pool 0 rs pool = []"
| "sample_pool (Suc k) rs pool =
     (let j = (case rs of [] \<Rightarrow> 0 | r # _ \<Rightarrow> r mod length pool)
      in pool ! j # sample_pool k (tl rs) (butlast (pool[j := last pool])))"

definition random_sample :: "world \<Rightarrow> 'a list \<Rightarrow> 'a list \<times> world" where
  "random_sample w population =
     (sample_pool (length population) (randoms w) population,
      w\<lparr>randoms := drop (length population) (randoms w)\<rparr>)"

subsection \<open>The submitter\<close>

text \<open>Source lines 72 to 76.\<close>

definition resolve_path :: "char \<Rightarrow> string \<Rightarrow> string option \<Rightarrow> string" where
  "resolve_path sep command p =
     (case p of
        Some path \<Rightarrow> (if path \<noteq> [] \<and> last path \<noteq> sep then path @ [sep] else path)
      | None \<Rightarrow> map (\<lambda>c. if c = CHR '' '' then CHR ''_'' else c) command @ [sep])"

text \<open>Source line 78.\<close>

definition ensure_job_dir :: "world \<Rightarrow> string \<Rightarrow> (py_error \<times> world) + world" where
  "ensure_job_dir w path =
     (if \<not> os_path_isdir w (path @ ''job'') then os_makedirs w (path @ ''job'') else Inr w)"

text \<open>Source lines 80 to 86: the exit status of each call is dropped.\<close>

fun run_local :: "world \<Rightarrow> string \<Rightarrow> string \<Rightarrow> string \<Rightarrow> pyval list list \<Rightarrow> world" where
  "run_local w cd command path [] = w"
| "run_local w cd command path (pbs_array_args # rest) =
     (let str_pbs_array_args = str_args pbs_array_args;
          (status, w') = os_system w (Bash (local_script cd str_pbs_array_args command path))
      in run_local w' cd command path rest)"

text \<open>Source lines 93 and 94.\<close>

definition pbs_array_data_chunks :: "'a list \<Rightarrow> 'a list list" where
  "pbs_array_data_chunks xs = map (\<lambda>x. py_slice xs x (x + 1000)) (range_1000 (length xs))"

text \<open>
  Source lines 95 and 96. The method \<^verbatim>\<open>insert\<close> is looked up on the last chunk
  before its argument pops the second-to-last one.
\<close>

definition merge_last :: "'a list list \<Rightarrow> py_error + 'a list list" where
  "merge_last chunks =
     (case py_get chunks (- 1) of
        Inl e \<Rightarrow> Inl e
      | Inr final \<Rightarrow>
          if length final = 1 then
            (case py_get chunks (- 2) of
               Inl e \<Rightarrow> Inl e
             | Inr prev \<Rightarrow>
                 (case py_pop prev of
                    Inl e \<Rightarrow> Inl e
                  | Inr (x, prev') \<Rightarrow>
                      Inr (chunks[length chunks - 2 := prev', length chunks - 1 := x # final])))
          else Inr chunks)"

text \<open>Source lines 98 to 113 for the chunk with index \<open>i\<close>.\<close>

definition make_script ::
  "world \<Rightarrow> kwargs \<Rightarrow> string \<Rightarrow> string \<Rightarrow> nat \<Rightarrow> pyval list list \<Rightarrow> pbs_script" where
  "make_script w kw command path i pbs_array_data_chunk =
     \<lparr>job_name = get_str (kw_N kw) (if sys_argv0 w \<noteq> [] then sys_argv0 w else ''job''),
      project = get_str (kw_P kw) [CHR 0x27, CHR 0x27],
      queue = get_str (kw_q kw) ''defaultQ'',
      out_dir = path @ ''job'',
      err_dir = path @ ''job'',
      select = get_str (kw_select kw) (str_int 1),
      ncpus = get_str (kw_ncpus kw) (str_int 1),
      mem = get_str (kw_mem kw) ''1GB'',
      walltime = get_str (kw_walltime kw) ''23:59:00'',
      array_lo = 1000 * int i,
      array_hi = 1000 * int i + int (length pbs_array_data_chunk) - 1,
      chunk_data = pbs_array_data_chunk,
      base_offset = 1000 * int i,
      workdir = (case kw_cd kw of None \<Rightarrow> ''$PBS_O_WORKDIR'' | Some d \<Rightarrow> d),
      script_command = command,
      script_path = path\<rparr>"

text \<open>Source lines 97 to 114: the exit status of each call is dropped.\<close>

fun submit_chunks ::
  "world \<Rightarrow> kwargs \<Rightarrow> string \<Rightarrow> string \<Rightarrow> (nat \<times> pyval list list) list \<Rightarrow> world" where
  "submit_chunks w kw command path [] = w"
| "submit_chunks w kw command path ((i, pbs_array_data_chunk) # rest) =
     (let (status, w') = os_system w (Qsub (make_script w kw command path i pbs_array_data_chunk))
      in submit_chunks w' kw command path rest)"

text \<open>
  The function. \<open>Inl (e, w)\<close> is the exception \<open>e\<close> leaving the function with the
  world as it was when it was raised; \<open>Inr w\<close> is a normal return.
\<close>

definition qsub :: "world \<Rightarrow> string \<Rightarrow> pyval list list \<Rightarrow> kwargs \<Rightarrow> (py_error \<times> world) + world" where
  "qsub w command pbs_array_data kw =
     (let path = resolve_path (os_sep w) command (kw_path kw) in
      case ensure_job_dir w path of
        Inl err \<Rightarrow> Inl err
      | Inr w1 \<Rightarrow>
          if (case kw_local kw of None \<Rightarrow> False | Some b \<Rightarrow> b) then
            Inr (run_local w1 (case kw_cd kw of None \<Rightarrow> ''.'' | Some d \<Rightarrow> d)
                   command path pbs_array_data)
          else
            (let (shuffled, w2) = random_sample w1 pbs_array_data;
                 w3 = py_print w2
                        (''Submitting '' @ str_int (int (length shuffled)) @ '' subjobs'')
             in case merge_last (pbs_array_data_chunks shuffled) of
                  Inl e \<Rightarrow> Inl (e, w3)
                | Inr chunks \<Rightarrow>
                    Inr (submit_chunks w3 kw command path (enumerate 0 chunks))))"

subsection \<open>Words of a plain text\<close>

text \<open>
  Word splitting as the shell does it on a text without quotes, expansions or
  pattern characters: the text is cut at spaces, tabs and newlines, and empty words
  are dropped. It is used below on such texts only; the shell's reading of
  any other text is the lexer's, further down.
\<close>

definition is_ifs :: "char \<Rightarrow> bool" where
  "is_ifs c = (c = CHR '' '' \<or> c = CHR 0x09 \<or> c = CHR 0x0A)"

fun bash_split :: "string \<Rightarrow> string \<Rightarrow> string list" where
  "bash_split cur [] = (if cur = [] then [] else [cur])"
| "bash_split cur (c # cs) =
     (if is_ifs c then (if cur = [] then bash_split [] cs else cur # bash_split [] cs)
      else bash_split (cur @ [c]) cs)"

definition bash_words :: "string \<Rightarrow> string list" where
  "bash_words s = bash_split [] s"

subsection \<open>Reading a trace\<close>

definition new_events :: "world \<Rightarrow> world \<Rightarrow> event list" where
  "new_events w w' = drop (length (trace w)) (trace w')"

fun shell_cmds :: "event list \<Rightarrow> shell_cmd list" where
  "shell_cmds [] = []"
| "shell_cmds (System c st # es) = c # shell_cmds es"
| "shell_cmds (Makedirs p # es) = shell_cmds es"
| "shell_cmds (Print s # es) = shell_cmds es"

fun submitted :: "event list \<Rightarrow> pbs_script list" where
  "submitted [] = []"
| "submitted (System (Qsub s) st # es) = s # submitted es"
| "submitted (System (Bash t) st # es) = submitted es"
| "submitted (Makedirs p # es) = submitted es"
| "submitted (Print s # es) = submitted es"

fun made_dirs :: "event list \<Rightarrow> string list" where
  "made_dirs [] = []"
| "made_dirs (Makedirs p # es) = p # made_dirs es"
| "made_dirs (System c st # es) = made_dirs es"
| "made_dirs (Print s # es) = made_dirs es"

fun exit_statuses :: "event list \<Rightarrow> int list" where
  "exit_statuses [] = []"
| "exit_statuses (System c st # es) = st # exit_statuses es"
| "exit_statuses (Makedirs p # es) = exit_statuses es"
| "exit_statuses (Print s # es) = exit_statuses es"

definition array_range :: "pbs_script \<Rightarrow> int \<times> int" where
  "array_range s = (array_lo s, array_hi s)"

definition is_local :: "kwargs \<Rightarrow> bool" where
  "is_local kw = (case kw_local kw of None \<Rightarrow> False | Some b \<Rightarrow> b)"

text \<open>The job directory of a call is there already, or \<^verbatim>\<open>os.makedirs\<close> can make it.\<close>

definition job_dir_ready :: "world \<Rightarrow> string \<Rightarrow> kwargs \<Rightarrow> bool" where
  "job_dir_ready w command kw =
     (let p = resolve_path (os_sep w) command (kw_path kw) @ ''job''
      in List.member (dirs w) p \<or> \<not> List.member (blocked w) p)"

text \<open>The statuses the next \<open>n\<close> calls of \<^verbatim>\<open>os.system\<close> return.\<close>

fun pad_statuses :: "int list \<Rightarrow> nat \<Rightarrow> int list" where
  "pad_statuses sts 0 = []"
| "pad_statuses [] (Suc n) = 0 # pad_statuses [] n"
| "pad_statuses (s # ss) (Suc n) = s # pad_statuses ss n"

definition next_statuses :: "world \<Rightarrow> nat \<Rightarrow> int list" where
  "next_statuses w n = pad_statuses (statuses w) n"

text \<open>A POSIX machine with nothing on it, for concrete runs.\<close>

definition posix_world :: world where
  "posix_world = \<lparr>os_sep = CHR ''/'', sys_argv0 = ''run.py'', dirs = [], blocked = [],
     randoms = [], statuses = [], trace = []\<rparr>"

text \<open>The names below abbreviate parts of a call in the statements that follow.\<close>

definition qsub_path :: "world \<Rightarrow> string \<Rightarrow> kwargs \<Rightarrow> string" where
  "qsub_path w command kw = resolve_path (os_sep w) command (kw_path kw)"

definition dirs_to_make :: "world \<Rightarrow> string \<Rightarrow> string list" where
  "dirs_to_make w path = (if os_path_isdir w (path @ ''job'') then [] else [path @ ''job''])"

definition local_cd :: "kwargs \<Rightarrow> string" where
  "local_cd kw = (case kw_cd kw of None \<Rightarrow> ''.'' | Some d \<Rightarrow> d)"

text \<open>What \<^verbatim>\<open>random.sample\<close> returns for the data in a world.\<close>

definition shuffled :: "world \<Rightarrow> 'a list \<Rightarrow> 'a list" where
  "shuffled w data = fst (random_sample w data)"

definition outcome_world :: "(py_error \<times> world) + world \<Rightarrow> world" where
  "outcome_world r = (case r of Inl (e, w) \<Rightarrow> w | Inr w \<Rightarrow> w)"

text \<open>Inputs for concrete runs.\<close>

definition two_tuples :: "pyval list list" where
  "two_tuples = [[PStr ''a'', PInt 1], [PStr ''b'', PInt 2]]"

text \<open>
  Index ranges that follow one another without a gap: each range starts right after
  the one before it ends.
\<close>

fun contiguous_ranges :: "(int \<times> int) list \<Rightarrow> bool" where
  "contiguous_ranges [] = True"
| "contiguous_ranges [r] = True"
| "contiguous_ranges ((lo, hi) # (lo', hi') # rs) = (hi + 1 = lo' \<and> contiguous_ranges ((lo', hi') # rs))"

text \<open>Keyword arguments for concrete runs.\<close>

definition local_kwargs :: kwargs where
  "local_kwargs = no_kwargs\<lparr>kw_local := Some True\<rparr>"

definition empty_path_kwargs :: kwargs where
  "empty_path_kwargs = no_kwargs\<lparr>kw_path := Some [], kw_local := Some True\<rparr>"

definition out_kwargs :: kwargs where
  "out_kwargs = no_kwargs\<lparr>kw_path := Some ''out'', kw_local := Some True\<rparr>"

subsection \<open>The literal of a chunk\<close>

text \<open>
  \<^verbatim>\<open>repr\<close> of a string, with a character taken as a code point below 256: the
  string is put in single quotes, or in double quotes when it has a single quote and
  no double quote; the quote used and the backslash get a backslash, tab, newline and
  carriage return their letter, and every other character that is not printable its
  two hexadecimal digits.
\<close>

definition hex_digit :: "nat \<Rightarrow> char" where
  "hex_digit d = (if d < 10 then char_of (48 + d) else char_of (87 + d))"

definition unprintable :: "char \<Rightarrow> bool" where
  "unprintable c =
     (let n = (of_char c :: nat) in n < 32 \<or> n = 127 \<or> (128 \<le> n \<and> n \<le> 160) \<or> n = 173)"

definition repr_char :: "char \<Rightarrow> char \<Rightarrow> string" where
  "repr_char quote c =
     (if c = quote \<or> c = CHR 0x5C then [CHR 0x5C, c]
      else if c = CHR 0x09 then [CHR 0x5C, CHR ''t'']
      else if c = CHR 0x0A then [CHR 0x5C, CHR ''n'']
      else if c = CHR 0x0D then [CHR 0x5C, CHR ''r'']
      else if unprintable c then
        [CHR 0x5C, CHR ''x'', hex_digit (of_char c div 16), hex_digit (of_char c mod 16)]
      else [c])"

definition repr_str :: "string \<Rightarrow> string" where
  "repr_str s =
     (let quote = (if List.member s (CHR 0x27) \<and> \<not> List.member s (CHR 0x22)
                   then CHR 0x22 else CHR 0x27)
      in quote # concat (map (repr_char quote) s) @ [quote])"

fun py_repr :: "pyval \<Rightarrow> string" where
  "py_repr (PStr s) = repr_str s"
| "py_repr (PInt i) = str_int i"

text \<open>\<^verbatim>\<open>', '.join(ss)\<close>\<close>

fun join_comma :: "string list \<Rightarrow> string" where
  "join_comma [] = []"
| "join_comma [s] = s"
| "join_comma (s # t # ss) = s @ '', '' @ join_comma (t # ss)"

text \<open>\<^verbatim>\<open>repr\<close> of a tuple: one element is followed by a comma.\<close>

definition repr_tuple :: "pyval list \<Rightarrow> string" where
  "repr_tuple t =
     ''('' @ (case t of [v] \<Rightarrow> py_repr v @ '','' | _ \<Rightarrow> join_comma (map py_repr t)) @ '')''"

text \<open>\<^verbatim>\<open>{pbs_array_data_chunk}\<close> in the f-string: the list of tuples as Python writes it.\<close>

definition repr_chunk :: "pyval list list \<Rightarrow> string" where
  "repr_chunk c = ''['' @ join_comma (map repr_tuple c) @ '']''"

subsection \<open>The text of a PBS script\<close>

definition indent12 :: string where
  "indent12 = replicate 12 CHR '' ''"

text \<open>The Python program of source line 109, between the double quotes.\<close>

definition snippet_code :: "pbs_script \<Rightarrow> string" where
  "snippet_code s =
     ''import sys;print('' @ [CHR 0x27] @ '' '' @ [CHR 0x27] @ ''.join(map(str, ''
     @ repr_chunk (chunk_data s) @ ''[int(sys.argv[1])-'' @ str_int (base_offset s) @ ''])))''"

text \<open>Source lines 99 to 108: the comment lines.\<close>

definition script_head :: "pbs_script \<Rightarrow> string" where
  "script_head s =
     indent12 @ ''#!/bin/bash\<newline>''
     @ indent12 @ ''#PBS -N '' @ job_name s @ ''\<newline>''
     @ indent12 @ ''#PBS -P '' @ project s @ ''\<newline>''
     @ indent12 @ ''#PBS -q '' @ queue s @ ''\<newline>''
     @ indent12 @ ''#PBS -V\<newline>''
     @ indent12 @ ''#PBS -m n\<newline>''
     @ indent12 @ ''#PBS -o '' @ out_dir s @ '' -e '' @ err_dir s @ ''\<newline>''
     @ indent12 @ ''#PBS -l select='' @ select s @ '':ncpus='' @ ncpus s @ '':mem='' @ mem s
       @ ''\<newline>''
     @ indent12 @ ''#PBS -l walltime='' @ walltime s @ ''\<newline>''
     @ indent12 @ ''#PBS -J '' @ str_int (array_lo s) @ ''-'' @ str_int (array_hi s) @ ''\<newline>''"

text \<open>Source line 109 after the double quote that opens the Python program, and lines 110 to 112.\<close>

definition after_open_quote :: "pbs_script \<Rightarrow> string" where
  "after_open_quote s =
     snippet_code s @ [CHR 0x22] @ '' $PBS_ARRAY_INDEX))\<newline>''
     @ indent12 @ ''cd '' @ workdir s @ ''\<newline>''
     @ indent12 @ ''echo '' @ [CHR 0x22] @ ''pbs_array_args = ${args[*]}'' @ [CHR 0x22] @ ''\<newline>''
     @ indent12 @ script_command s @ '' ${args[*]} '' @ script_path s @ ''\<newline>''"

text \<open>Source lines 109 to 112.\<close>

definition script_body :: "pbs_script \<Rightarrow> string" where
  "script_body s = indent12 @ ''args=($(python -c '' @ [CHR 0x22] @ after_open_quote s"

text \<open>Source lines 98 to 114: the text passed to \<^verbatim>\<open>os.system\<close> for a chunk.\<close>

definition qsub_text :: "pbs_script \<Rightarrow> string" where
  "qsub_text s =
     ''qsub <<'' @ [CHR 0x27] @ ''END'' @ [CHR 0x27] @ ''\<newline>''
     @ script_head s @ script_body s @ ''END''"

subsection \<open>A fragment of the shell\<close>

text \<open>
  The texts handed to \<^verbatim>\<open>os.system\<close> are read by a shell. The model below follows
  the shell on a fragment only: words of plain characters, blanks, newlines that end
  a command, and single and double quotes. On anything else (an expansion, a
  backslash, a control operator, a pattern character, a reserved word) it gives no
  answer, \<open>Beyond_model\<close>, rather than a wrong one.
\<close>

definition plain_char :: "char \<Rightarrow> bool" where
  "plain_char c =
     List.member ''abcdefghijklmnopqrstuvwxyzABCDEFGHIJKLMNOPQRSTUVWXYZ0123456789_-./,:+@'' c"

definition blank :: "char \<Rightarrow> bool" where
  "blank c = (c = CHR '' '' \<or> c = CHR 0x09)"

definition reserved_words :: "string list" where
  "reserved_words =
     [''!'', ''case'', ''coproc'', ''do'', ''done'', ''elif'', ''else'', ''esac'', ''fi'', ''for'',
      ''function'', ''if'', ''in'', ''select'', ''then'', ''until'', ''while'', ''{'', ''}'',
      ''time'', ''[['', '']]'']"

datatype mode = Plain | Dq | Sq

text \<open>
  What running a text does: the commands it starts, each with its argument vector and
  in order; or a syntax error, after the commands started before it; or no answer.
\<close>

datatype outcome = Started "string list list" | Syntax_error "string list list" | Beyond_model

definition push_word :: "string \<Rightarrow> bool \<Rightarrow> string list \<Rightarrow> string list" where
  "push_word cur opened argv = (if opened then argv @ [cur] else argv)"

text \<open>
  The reader: the quoting mode, the word being read and whether one is open (a pair of
  quotes opens a word even when it is empty), the words of the command being read,
  the commands started so far, and the text left.
\<close>

fun lex :: "mode \<Rightarrow> string \<Rightarrow> bool \<Rightarrow> string list \<Rightarrow> string list list \<Rightarrow> string \<Rightarrow> outcome" where
  "lex Plain cur opened argv cmds [] =
     (let argv' = push_word cur opened argv
      in if argv' = [] then Started cmds
         else if List.member reserved_words (hd argv') then Beyond_model
         else Started (cmds @ [argv']))"
| "lex Dq cur opened argv cmds [] = Syntax_error cmds"
| "lex Sq cur opened argv cmds [] = Syntax_error cmds"
| "lex Plain cur opened argv cmds (c # cs) =
     (if blank c then lex Plain [] False (push_word cur opened argv) cmds cs
      else if c = CHR 0x0A then
        (let argv' = push_word cur opened argv
         in if argv' = [] then lex Plain [] False [] cmds cs
            else if List.member reserved_words (hd argv') then Beyond_model
            else lex Plain [] False [] (cmds @ [argv']) cs)
      else if c = CHR 0x22 then lex Dq cur True argv cmds cs
      else if c = CHR 0x27 then lex Sq cur True argv cmds cs
      else if plain_char c then lex Plain (cur @ [c]) True argv cmds cs
      else Beyond_model)"
| "lex Dq cur opened argv cmds (c # cs) =
     (if c = CHR 0x22 then lex Plain cur opened argv cmds cs
      else if c = CHR ''$'' \<or> c = CHR 0x60 \<or> c = CHR 0x5C \<or> c = CHR 0x00 then Beyond_model
      else lex Dq (cur @ [c]) opened argv cmds cs)"
| "lex Sq cur opened argv cmds (c # cs) =
     (if c = CHR 0x27 then lex Plain cur opened argv cmds cs
      else if c = CHR 0x00 then Beyond_model
      else lex Sq (cur @ [c]) opened argv cmds cs)"

definition bash_run :: "string \<Rightarrow> outcome" where
  "bash_run script = lex Plain [] False [] [] script"

text \<open>The lines of a text.\<close>

fun split_lines :: "string \<Rightarrow> string \<Rightarrow> string list" where
  "split_lines cur [] = [cur]"
| "split_lines cur (c # cs) =
     (if c = CHR 0x0A then cur # split_lines [] cs else split_lines (cur @ [c]) cs)"

text \<open>
  \<^verbatim>\<open>os.system\<close> on the text of local mode: the shell gives the lines between
  \<^verbatim>\<open>bash <<'END'\<close> and the line \<^verbatim>\<open>END\<close>, as they are, to \<^verbatim>\<open>bash\<close>. A text of
  another shape gets no answer.
\<close>

definition sh_run :: "string \<Rightarrow> outcome" where
  "sh_run text =
     (case split_lines [] text of
        [] \<Rightarrow> Beyond_model
      | first # ls \<Rightarrow>
          if first = ''bash <<'' @ [CHR 0x27] @ ''END'' @ [CHR 0x27] \<and> ls \<noteq> [] \<and> last ls = ''END''
             \<and> \<not> List.member (butlast ls) ''END''
          then bash_run (concat (map (\<lambda>l. l @ [CHR 0x0A]) (butlast ls)))
          else Beyond_model)"

fun local_outcomes :: "event list \<Rightarrow> outcome list" where
  "local_outcomes [] = []"
| "local_outcomes (System (Bash t) st # es) = sh_run t # local_outcomes es"
| "local_outcomes (System (Qsub s) st # es) = local_outcomes es"
| "local_outcomes (Makedirs p # es) = local_outcomes es"
| "local_outcomes (Print s # es) = local_outcomes es"

subsection \<open>A PBS script at run time\<close>

text \<open>
  What the Python program of source line 109 prints when Python reads it as it was
  written, with \<^verbatim>\<open>sys.argv[1]\<close> the array index: the literal denotes the chunk, the
  index is reduced by the base and looked up, and the values of the tuple are joined.
\<close>

definition python_prints :: "pyval list list \<Rightarrow> int \<Rightarrow> int \<Rightarrow> py_error + string" where
  "python_prints chunk base pbs_array_index =
     (case py_get chunk (pbs_array_index - base) of
        Inl e \<Rightarrow> Inl e
      | Inr t \<Rightarrow> Inr (str_args t))"

text \<open>
  A text the shell leaves as it is between double quotes: no double quote, dollar,
  backquote, backslash or null character, and ASCII only.
\<close>

definition dq_inert :: "string \<Rightarrow> bool" where
  "dq_inert s =
     list_all (\<lambda>c. c \<noteq> CHR 0x22 \<and> c \<noteq> CHR ''$'' \<and> c \<noteq> CHR 0x60 \<and> c \<noteq> CHR 0x5C
                    \<and> c \<noteq> CHR 0x00 \<and> (of_char c :: nat) < 128) s"

text \<open>A text of plain characters and spaces: the shell only cuts it into words.\<close>

definition safe_text :: "string \<Rightarrow> bool" where
  "safe_text s = list_all (\<lambda>c. plain_char c \<or> c = CHR '' '') s"

definition one_line :: "string \<Rightarrow> bool" where
  "one_line s = (\<not> List.member s (CHR 0x0A))"

text \<open>The texts written into a script, the chunk apart.\<close>

definition script_texts :: "pbs_script \<Rightarrow> string list" where
  "script_texts s =
     [job_name s, project s, queue s, out_dir s, err_dir s, select s, ncpus s, mem s, walltime s,
      workdir s, script_command s, script_path s]"

definition start_command :: "string list \<Rightarrow> outcome" where
  "start_command argv =
     (if argv = [] then Started []
      else if List.member reserved_words (hd argv) then Beyond_model
      else Started [argv])"

text \<open>
  What the script of a chunk does with the user command when the scheduler runs it
  with an array index (source lines 109 to 112; \<^verbatim>\<open>python\<close> is taken to be there).

  When the literal of the chunk is left as it is between the double quotes, Python
  reads the program as written; \<^verbatim>\<open>args=($(...))\<close> cuts what it printed into words
  (none, when the lookup raised), and the last line starts the command on the words
  of the command, those words and the words of the path.

  Otherwise the shell reads the literal as shell text. Where the quotes then never
  close the script is a syntax error inside its first command, and nothing is
  started.
\<close>

definition script_run :: "pbs_script \<Rightarrow> int \<Rightarrow> outcome" where
  "script_run s pbs_array_index =
     (if \<not> list_all one_line (script_texts s) then Beyond_model
      else if dq_inert (repr_chunk (chunk_data s)) then
        (if safe_text (script_command s) \<and> safe_text (script_path s)
            \<and> (workdir s = ''$PBS_O_WORKDIR'' \<or> safe_text (workdir s))
         then
           (case python_prints (chunk_data s) (base_offset s) pbs_array_index of
              Inl e \<Rightarrow> start_command (bash_words (script_command s) @ bash_words (script_path s))
            | Inr out \<Rightarrow>
                if safe_text out
                then start_command (bash_words (script_command s) @ bash_words out
                                    @ bash_words (script_path s))
                else Beyond_model)
         else Beyond_model)
      else
        (case lex Dq [] True [] [] (after_open_quote s) of
           Syntax_error cmds \<Rightarrow> Syntax_error []
         | Started cmds \<Rightarrow> Beyond_model
         | Beyond_model \<Rightarrow> Beyond_model))"

text \<open>Values, and calls, on which the shell only cuts words.\<close>

fun safe_value :: "pyval \<Rightarrow> bool" where
  "safe_value (PStr s) = safe_text s"
| "safe_value (PInt i) = True"

definition runnable :: "string list \<Rightarrow> bool" where
  "runnable argv = (argv \<noteq> [] \<and> \<not> List.member reserved_words (hd argv))"

definition safe_call :: "world \<Rightarrow> string \<Rightarrow> kwargs \<Rightarrow> pyval list list \<Rightarrow> bool" where
  "safe_call w command kw data =
     (safe_text command \<and> runnable (bash_words command)
      \<and> safe_text (qsub_path w command kw)
      \<and> list_all (list_all safe_value) data)"

text \<open>
  The rest of a PBS script is harmless: the working directory is the default or a safe
  text, and no text written into the script has a newline in it.
\<close>

definition safe_script :: "world \<Rightarrow> string \<Rightarrow> kwargs \<Rightarrow> bool" where
  "safe_script w command kw =
     ((case kw_cd kw of None \<Rightarrow> True | Some d \<Rightarrow> safe_text d)
      \<and> list_all one_line (script_texts (make_script w kw command (qsub_path w command kw) 0 [])))"

text \<open>What the submitted scripts of a trace do when run with an array index.\<close>

fun script_outcomes :: "event list \<Rightarrow> int \<Rightarrow> outcome list" where
  "script_outcomes [] j = []"
| "script_outcomes (System (Qsub s) st # es) j = script_run s j # script_outcomes es j"
| "script_outcomes (System (Bash t) st # es) j = script_outcomes es j"
| "script_outcomes (Makedirs p # es) j = script_outcomes es j"
| "script_outcomes (Print s # es) j = script_outcomes es j"

text \<open>An input with a double quote in a value, and a command that is not \<^verbatim>\<open>echo\<close>.\<close>

definition quote_tuples :: "pyval list list" where
  "quote_tuples = [[PStr (''a'' @ [CHR 0x22] @ ''b'')], [PInt 7]]"

section \<open>Properties\<close>

subsection \<open>Slicing into chunks\<close>

lemma concat_slices_upto:
  "concat (map (\<lambda>k. take c (drop (c * k) xs)) [0..<m]) = take (c * m) xs"
proof (induction m)
  case 0
  show ?case by simp
next
  case (Suc m)
  have "take (c * m + c) xs = take (c * m) xs @ take c (drop (c * m) xs)"
    by (rule take_add)
  moreover have "c * Suc m = c * m + c" by simp
  ultimately have "take (c * Suc m) xs = take (c * m) xs @ take c (drop (c * m) xs)"
    by metis
  with Suc show ?case by simp
qed

lemma chunks_alt:
  "pbs_array_data_chunks xs = map (\<lambda>k. take 1000 (drop (1000 * k) xs)) [0..<(length xs + 999) div 1000]"
  by (simp add: pbs_array_data_chunks_def range_1000_def py_slice_def comp_def)

lemma concat_chunks: "concat (pbs_array_data_chunks xs) = xs"
proof -
  have "length xs \<le> 1000 * ((length xs + 999) div 1000)" by arith
  then show ?thesis
    unfolding chunks_alt concat_slices_upto by simp
qed

lemma length_chunks: "length (pbs_array_data_chunks xs) = (length xs + 999) div 1000"
  by (simp add: chunks_alt)

lemma nth_chunks:
  "k < (length xs + 999) div 1000 \<Longrightarrow> pbs_array_data_chunks xs ! k = take 1000 (drop (1000 * k) xs)"
  by (simp add: chunks_alt)

lemma length_nth_chunks:
  "k < (length xs + 999) div 1000 \<Longrightarrow>
     length (pbs_array_data_chunks xs ! k) = min 1000 (length xs - 1000 * k)"
  by (simp add: nth_chunks min.commute)

lemma chunks_Nil_iff: "pbs_array_data_chunks xs = [] \<longleftrightarrow> xs = []"
proof -
  have "((length xs + 999) div 1000 = 0) = (length xs = 0)" by arith
  then show ?thesis using length_chunks [of xs] by (metis length_0_conv)
qed

lemma length_inner_chunk:
  assumes "c \<in> set (butlast (pbs_array_data_chunks xs))"
  shows "length c = 1000"
proof -
  let ?cs = "pbs_array_data_chunks xs"
  let ?m = "(length xs + 999) div 1000"
  from assms obtain k where k: "k < length (butlast ?cs)" and c: "c = butlast ?cs ! k"
    by (metis in_set_conv_nth)
  from k have km: "k < ?m - 1" by (simp add: length_chunks)
  then have "k < ?m" by simp
  moreover from km have "1000 * k + 1000 \<le> length xs" by arith
  ultimately have "length (?cs ! k) = 1000" by (simp add: length_nth_chunks)
  moreover from k have "butlast ?cs ! k = ?cs ! k" by (simp add: nth_butlast)
  ultimately show ?thesis using c by simp
qed

lemma length_last_chunk:
  assumes "xs \<noteq> []"
  shows "1 \<le> length (last (pbs_array_data_chunks xs)) \<and> length (last (pbs_array_data_chunks xs)) \<le> 1000"
    and "length (last (pbs_array_data_chunks xs)) = length xs - 1000 * ((length xs + 999) div 1000 - 1)"
proof -
  let ?cs = "pbs_array_data_chunks xs"
  let ?m = "(length xs + 999) div 1000"
  from assms have ne: "?cs \<noteq> []" by (simp add: chunks_Nil_iff)
  from assms have m: "0 < ?m" by (cases xs) simp_all
  have "last ?cs = ?cs ! (?m - 1)" using ne by (simp add: last_conv_nth length_chunks)
  moreover have "length (?cs ! (?m - 1)) = min 1000 (length xs - 1000 * (?m - 1))"
    using m by (simp add: length_nth_chunks)
  moreover have "1000 * (?m - 1) < length xs" using m assms by (cases xs) (simp, arith)
  moreover have "length xs - 1000 * (?m - 1) \<le> 1000" by arith
  ultimately have eq: "length (last ?cs) = length xs - 1000 * (?m - 1)"
    and pos: "0 < length xs - 1000 * (?m - 1)" by simp_all
  from eq show "length (last (pbs_array_data_chunks xs)) = length xs - 1000 * ((length xs + 999) div 1000 - 1)" .
  from eq pos show "1 \<le> length (last ?cs) \<and> length (last ?cs) \<le> 1000" by arith
qed


lemma py_get_last: "py_get (pre @ [p, f]) (- 1) = Inr f"
proof -
  have "nat (1 + int (length pre)) = Suc (length pre)" by simp
  then show ?thesis by (simp add: py_get_def nth_append)
qed

lemma py_get_last2: "py_get (pre @ [p, f]) (- 2) = Inr p"
proof -
  have "nat (1 + int (length pre) + 1 - 2) = length pre" by simp
  then show ?thesis by (simp add: py_get_def nth_append)
qed

lemma merge_last_Nil: "merge_last [] = Inl IndexError"
  by (simp add: merge_last_def py_get_def)

lemma merge_last_single:
  "merge_last [f] = (if length f = 1 then Inl IndexError else Inr [f])"
  by (simp add: merge_last_def py_get_def)

lemma merge_last_snoc2:
  "merge_last (pre @ [p, f]) =
     (if length f = 1 then (if p = [] then Inl IndexError else Inr (pre @ [butlast p, last p # f]))
      else Inr (pre @ [p, f]))"
  by (simp add: merge_last_def py_get_last py_get_last2 py_pop_def list_update_append)

lemma list_cases3:
  obtains "cs = []" | f where "cs = [f]" | pre p f where "cs = pre @ [p, f]"
proof (cases cs rule: rev_cases)
  case Nil
  then show ?thesis using that by simp
next
  case (snoc ys f)
  show ?thesis
  proof (cases ys rule: rev_cases)
    case Nil
    with snoc show ?thesis using that by simp
  next
    case (snoc pre p)
    with \<open>cs = ys @ [f]\<close> show ?thesis using that by simp
  qed
qed

lemma merge_last_concat: "merge_last cs = Inr cs' \<Longrightarrow> concat cs' = concat cs"
  by (cases cs rule: list_cases3)
     (auto simp: merge_last_Nil merge_last_single merge_last_snoc2 split: if_splits)

lemma merge_last_length: "merge_last cs = Inr cs' \<Longrightarrow> length cs' = length cs"
  by (cases cs rule: list_cases3)
     (auto simp: merge_last_Nil merge_last_single merge_last_snoc2 split: if_splits)

lemma mset_pool_step:
  assumes "j < length pool"
  shows "add_mset (pool ! j) (mset (butlast (pool[j := last pool]))) = mset pool"
proof (cases "j = length pool - 1")
  case True
  with assms have "pool[j := last pool] = pool"
    by (metis last_conv_nth list_update_id length_greater_0_conv gr_implies_not0 list.size(3))
  moreover from True assms have "pool ! j = last pool"
    by (metis last_conv_nth length_greater_0_conv gr_implies_not0 list.size(3))
  moreover from assms have "pool \<noteq> []" by auto
  then have "add_mset (last pool) (mset (butlast pool)) = mset pool"
    by (metis append_butlast_last_id mset.simps(2) mset_append union_mset_add_mset_right add.right_neutral mset.simps(1))
  ultimately show ?thesis by simp
next
  case False
  with assms have j: "j < length (butlast pool)" by simp
  from assms have ne: "pool \<noteq> []" by auto
  then have split: "pool = butlast pool @ [last pool]" by simp
  have "pool[j := last pool] = (butlast pool)[j := last pool] @ [last pool]"
    by (metis split j list_update_append1)
  then have "butlast (pool[j := last pool]) = (butlast pool)[j := last pool]" by simp
  moreover have "pool ! j = butlast pool ! j" using j by (simp add: nth_butlast)
  moreover have "add_mset (butlast pool ! j) (mset ((butlast pool)[j := last pool]))
      = add_mset (last pool) (mset (butlast pool))"
    using j by (simp add: mset_update)
  moreover have "add_mset (last pool) (mset (butlast pool)) = mset pool"
    by (metis split mset.simps(2) mset_append union_mset_add_mset_right add.right_neutral mset.simps(1))
  ultimately show ?thesis by simp
qed

lemma mset_sample_pool: "length pool = k \<Longrightarrow> mset (sample_pool k rs pool) = mset pool"
proof (induction k arbitrary: rs pool)
  case 0
  then show ?case by simp
next
  case (Suc k)
  define j where "j = (case rs of [] \<Rightarrow> 0 | r # _ \<Rightarrow> r mod length pool)"
  from Suc.prems have j: "j < length pool" by (auto simp: j_def split: list.splits)
  from Suc.prems have "length (butlast (pool[j := last pool])) = k" by simp
  then have "mset (sample_pool k (tl rs) (butlast (pool[j := last pool])))
      = mset (butlast (pool[j := last pool]))" by (rule Suc.IH)
  then have "mset (sample_pool (Suc k) rs pool)
      = add_mset (pool ! j) (mset (butlast (pool[j := last pool])))"
    by (simp add: j_def Let_def)
  with mset_pool_step [OF j] show ?case by simp
qed

lemma length_sample_pool: "length (sample_pool k rs pool) = k"
  by (induction k arbitrary: rs pool) (simp_all add: Let_def)

subsection \<open>The two loops\<close>

lemma run_local_eq:
  "run_local w cd command path data =
     w\<lparr>statuses := drop (length data) (statuses w),
       trace := trace w @ map (\<lambda>(t, st). System (Bash (local_script cd (str_args t) command path)) st)
                            (zip data (next_statuses w (length data)))\<rparr>"
proof (induction data arbitrary: w)
  case Nil
  show ?case by simp
next
  case (Cons t ts)
  show ?case
    by (cases "statuses w") (simp_all add: os_system_def Cons.IH next_statuses_def)
qed


lemma make_script_argv0:
  "sys_argv0 w' = sys_argv0 w \<Longrightarrow> make_script w' kw command path i c = make_script w kw command path i c"
  by (simp add: make_script_def)

lemma submit_chunks_eq:
  "submit_chunks w kw command path ics =
     w\<lparr>statuses := drop (length ics) (statuses w),
       trace := trace w @ map (\<lambda>((i, c), st). System (Qsub (make_script w kw command path i c)) st)
                            (zip ics (next_statuses w (length ics)))\<rparr>"
proof (induction ics arbitrary: w)
  case Nil
  show ?case by simp
next
  case (Cons ic ics)
  obtain i c where ic: "ic = (i, c)" by (cases ic)
  show ?case
  proof (cases "statuses w")
    case Nil
    let ?w' = "w\<lparr>trace := trace w @ [System (Qsub (make_script w kw command path i c)) 0]\<rparr>"
    have ms: "\<And>j d. make_script ?w' kw command path j d = make_script w kw command path j d"
      by (rule make_script_argv0) simp
    show ?thesis
      by (simp add: ic os_system_def Nil Cons.IH [of ?w'] next_statuses_def ms)
  next
    case (Cons s ss)
    let ?w' = "w\<lparr>statuses := ss, trace := trace w @ [System (Qsub (make_script w kw command path i c)) s]\<rparr>"
    have ms: "\<And>j d. make_script ?w' kw command path j d = make_script w kw command path j d"
      by (rule make_script_argv0) simp
    show ?thesis
      by (simp add: ic os_system_def Cons Cons.IH [of ?w'] next_statuses_def ms)
  qed
qed


subsection \<open>The chunks after the merge\<close>

lemma one_chunk_bound: "(n + 999) div 1000 = 1 \<Longrightarrow> n \<le> (1000::nat)"
  by linarith

lemma small_mod_not_1: "n \<le> 1000 \<Longrightarrow> 2 \<le> n \<Longrightarrow> n mod 1000 \<noteq> (1::nat)"
  by (cases "n = 1000") auto

lemma mod_1000_tail: "(n::nat) = 1000 * (k + 1) + f \<Longrightarrow> n mod 1000 = f mod 1000"
  by (simp only: mod_mult_self4)

lemma tail_mod_1: "1 \<le> f \<Longrightarrow> f \<le> 1000 \<Longrightarrow> (f mod 1000 = (1::nat)) = (f = 1)"
  by (cases "f = 1000") auto

lemma tail_split: "f = n - 1000 * (k + 1) \<Longrightarrow> 1 \<le> f \<Longrightarrow> (n::nat) = 1000 * (k + 1) + f"
  by linarith

lemma three_positions: "i < Suc (Suc k) \<Longrightarrow> i < k \<or> i = k \<or> i = Suc k"
  by linarith

lemma final_chunks:
  assumes n: "2 \<le> length ys"
  shows "\<exists>cs. merge_last (pbs_array_data_chunks ys) = Inr cs"
proof (cases "pbs_array_data_chunks ys" rule: list_cases3)
  case 1
  with n show ?thesis by (simp add: chunks_Nil_iff)
next
  case (2 f)
  have "concat (pbs_array_data_chunks ys) = ys" by (rule concat_chunks)
  with 2 have "f = ys" by simp
  with n 2 show ?thesis by (simp add: merge_last_single)
next
  case (3 pre p f)
  then have "p \<in> set (butlast (pbs_array_data_chunks ys))" by (simp add: butlast_append)
  then have "length p = 1000" by (rule length_inner_chunk)
  then have "p \<noteq> []" by auto
  with 3 show ?thesis by (simp add: merge_last_snoc2)
qed

lemma final_chunk_lengths:
  assumes n: "2 \<le> length ys"
    and m: "merge_last (pbs_array_data_chunks ys) = Inr cs"
    and i: "i < length cs"
  shows "length (cs ! i) =
     (if Suc i = length cs then (if length ys mod 1000 = 1 then 2 else length ys - 1000 * i)
      else if Suc (Suc i) = length cs \<and> length ys mod 1000 = 1 then 999 else 1000)"
proof (cases "pbs_array_data_chunks ys" rule: list_cases3)
  case 1
  with n show ?thesis by (simp add: chunks_Nil_iff)
next
  case (2 f)
  have "concat (pbs_array_data_chunks ys) = ys" by (rule concat_chunks)
  with 2 have f: "f = ys" by simp
  from 2 have "length (pbs_array_data_chunks ys) = 1" by simp
  then have "(length ys + 999) div 1000 = 1" by (simp only: length_chunks)
  then have "length ys \<le> 1000" by (rule one_chunk_bound)
  then have "length ys mod 1000 \<noteq> 1" using n by (rule small_mod_not_1)
  moreover from m 2 f n have "cs = [ys]" by (simp add: merge_last_single split: if_splits)
  ultimately show ?thesis using i by simp
next
  case (3 pre p f)
  let ?cs0 = "pbs_array_data_chunks ys"
  from n have ne: "ys \<noteq> []" by auto
  have len0: "length ?cs0 = length pre + 2" using 3 by simp
  then have mm: "(length ys + 999) div 1000 = length pre + 2" by (simp only: length_chunks)
  have inner: "\<And>c. c \<in> set pre \<or> c = p \<Longrightarrow> length c = 1000"
  proof -
    fix c assume "c \<in> set pre \<or> c = p"
    then have "c \<in> set (butlast ?cs0)" using 3 by (auto simp: butlast_append)
    then show "length c = 1000" by (rule length_inner_chunk)
  qed
  have lf: "length f = length ys - 1000 * (length pre + 1)"
    using length_last_chunk(2) [OF ne] 3 mm by simp
  have lf_bounds: "1 \<le> length f \<and> length f \<le> 1000"
    using length_last_chunk(1) [OF ne] 3 by simp
  have mod1: "(length ys mod 1000 = 1) = (length f = 1)"
  proof -
    have "length ys = 1000 * (length pre + 1) + length f"
      using lf lf_bounds by (simp only: tail_split)
    then have "length ys mod 1000 = length f mod 1000" by (rule mod_1000_tail)
    with lf_bounds show ?thesis by (simp only: tail_mod_1)
  qed
  have p: "length p = 1000" using inner by simp
  then have pne: "p \<noteq> []" by auto
  show ?thesis
  proof (cases "length f = 1")
    case True
    with m 3 pne have cs: "cs = pre @ [butlast p, last p # f]" by (simp add: merge_last_snoc2)
    from i cs have "i < Suc (Suc (length pre))" by simp
    then consider "i < length pre" | "i = length pre" | "i = Suc (length pre)"
      using three_positions by blast
    then show ?thesis
    proof cases
      case 1
      then have "cs ! i \<in> set pre" using cs by (simp add: nth_append)
      then have "length (cs ! i) = 1000" using inner by simp
      with 1 cs show ?thesis by simp
    next
      case 2
      with cs p True mod1 show ?thesis by (simp add: nth_append)
    next
      case 3
      with cs True mod1 show ?thesis by (simp add: nth_append)
    qed
  next
    case False
    with m 3 have cs: "cs = pre @ [p, f]" by (simp add: merge_last_snoc2)
    from i cs have "i < Suc (Suc (length pre))" by simp
    then consider "i < length pre" | "i = length pre" | "i = Suc (length pre)"
      using three_positions by blast
    then show ?thesis
    proof cases
      case 1
      then have "cs ! i \<in> set pre" using cs by (simp add: nth_append)
      then have "length (cs ! i) = 1000" using inner by simp
      with 1 cs show ?thesis by simp
    next
      case 2
      with cs p False mod1 show ?thesis by (simp add: nth_append)
    next
      case 3
      with cs False mod1 lf show ?thesis by (simp add: nth_append)
    qed
  qed
qed

lemma final_chunks_length:
  "merge_last (pbs_array_data_chunks ys) = Inr cs \<Longrightarrow> length cs = (length ys + 999) div 1000"
  by (simp add: merge_last_length length_chunks)

lemma final_chunks_concat:
  "merge_last (pbs_array_data_chunks ys) = Inr cs \<Longrightarrow> concat cs = ys"
  by (simp add: merge_last_concat concat_chunks)


subsection \<open>A whole call\<close>

lemma submitted_append: "submitted (xs @ ys) = submitted xs @ submitted ys"
  by (induction xs rule: submitted.induct) simp_all

lemma shell_cmds_append: "shell_cmds (xs @ ys) = shell_cmds xs @ shell_cmds ys"
  by (induction xs rule: shell_cmds.induct) simp_all

lemma made_dirs_append: "made_dirs (xs @ ys) = made_dirs xs @ made_dirs ys"
  by (induction xs rule: made_dirs.induct) simp_all

lemma exit_statuses_append: "exit_statuses (xs @ ys) = exit_statuses xs @ exit_statuses ys"
  by (induction xs rule: exit_statuses.induct) simp_all

lemma length_pad_statuses: "length (pad_statuses sts n) = n"
  by (induction sts n rule: pad_statuses.induct) simp_all

lemma system_events:
  assumes "length sts = length xs"
  shows "shell_cmds (map (\<lambda>(x, st). System (f x) st) (zip xs sts)) = map f xs"
    and "exit_statuses (map (\<lambda>(x, st). System (f x) st) (zip xs sts)) = sts"
    and "made_dirs (map (\<lambda>(x, st). System (f x) st) (zip xs sts)) = []"
  using assms by (induction xs sts rule: list_induct2'; simp)+

lemma submitted_qsub_events:
  assumes "length sts = length xs"
  shows "submitted (map (\<lambda>(x, st). System (Qsub (f x)) st) (zip xs sts)) = map f xs"
  using assms by (induction xs sts rule: list_induct2') simp_all

lemma submitted_bash_events:
  "submitted (map (\<lambda>(x, st). System (Bash (f x)) st) (zip xs sts)) = []"
  by (induction xs sts rule: list_induct2') simp_all

lemma ensure_job_dir_ready:
  assumes "job_dir_ready w command kw"
  shows "ensure_job_dir w (qsub_path w command kw) =
     Inr (w\<lparr>dirs := dirs_to_make w (qsub_path w command kw) @ dirs w,
            trace := trace w @ map Makedirs (dirs_to_make w (qsub_path w command kw))\<rparr>)"
  using assms
  by (auto simp: job_dir_ready_def ensure_job_dir_def qsub_path_def dirs_to_make_def
      os_path_isdir_def os_makedirs_def Let_def)

lemma ensure_job_dir_blocked:
  assumes "\<not> job_dir_ready w command kw"
  shows "ensure_job_dir w (qsub_path w command kw) = Inl (OSError, w)"
  using assms
  by (simp add: job_dir_ready_def ensure_job_dir_def qsub_path_def
      os_path_isdir_def os_makedirs_def Let_def)


lemma qsub_blocked:
  assumes "\<not> job_dir_ready w command kw"
  shows "qsub w command data kw = Inl (OSError, w)"
  using ensure_job_dir_blocked [OF assms]
  by (simp add: qsub_def qsub_path_def Let_def)

lemma new_events_append: "trace w' = trace w @ es \<Longrightarrow> new_events w w' = es"
  by (simp add: new_events_def)

lemma qsub_local_run:
  assumes loc: "is_local kw" and ready: "job_dir_ready w command kw"
  shows "\<exists>w'. qsub w command data kw = Inr w'
     \<and> new_events w w' =
         map Makedirs (dirs_to_make w (qsub_path w command kw))
         @ map (\<lambda>(t, st). System (Bash (local_script (local_cd kw) (str_args t) command
                                          (qsub_path w command kw))) st)
               (zip data (next_statuses w (length data)))
     \<and> dirs w' = dirs_to_make w (qsub_path w command kw) @ dirs w
     \<and> randoms w' = randoms w
     \<and> os_sep w' = os_sep w"
proof -
  let ?path = "qsub_path w command kw"
  let ?w1 = "w\<lparr>dirs := dirs_to_make w ?path @ dirs w,
                trace := trace w @ map Makedirs (dirs_to_make w ?path)\<rparr>"
  let ?w' = "run_local ?w1 (local_cd kw) command ?path data"
  have ns: "next_statuses ?w1 (length data) = next_statuses w (length data)"
    by (simp add: next_statuses_def)
  have q: "qsub w command data kw = Inr ?w'"
    using ensure_job_dir_ready [OF ready] loc
    by (simp add: qsub_def qsub_path_def Let_def is_local_def local_cd_def)
  have "trace ?w' = trace w @ (map Makedirs (dirs_to_make w ?path)
         @ map (\<lambda>(t, st). System (Bash (local_script (local_cd kw) (str_args t) command ?path)) st)
               (zip data (next_statuses w (length data))))"
    by (simp add: run_local_eq ns)
  then have "new_events w ?w' = map Makedirs (dirs_to_make w ?path)
         @ map (\<lambda>(t, st). System (Bash (local_script (local_cd kw) (str_args t) command ?path)) st)
               (zip data (next_statuses w (length data)))"
    by (rule new_events_append)
  moreover have "dirs ?w' = dirs_to_make w ?path @ dirs w" "randoms ?w' = randoms w"
    "os_sep ?w' = os_sep w"
    by (simp_all add: run_local_eq)
  ultimately show ?thesis using q by blast
qed

lemma qsub_remote_outcome:
  assumes rem: "\<not> is_local kw" and ready: "job_dir_ready w command kw"
  shows "qsub w command data kw =
     (let path = qsub_path w command kw;
          w3 = w\<lparr>dirs := dirs_to_make w path @ dirs w,
                  randoms := drop (length data) (randoms w),
                  trace := trace w @ map Makedirs (dirs_to_make w path)
                           @ [Print (''Submitting '' @ str_int (int (length data)) @ '' subjobs'')]\<rparr>
      in case merge_last (pbs_array_data_chunks (shuffled w data)) of
           Inl e \<Rightarrow> Inl (e, w3)
         | Inr chunks \<Rightarrow> Inr (submit_chunks w3 kw command path (enumerate 0 chunks)))"
  using ensure_job_dir_ready [OF ready] rem
  by (simp add: qsub_def qsub_path_def Let_def is_local_def random_sample_def shuffled_def
      py_print_def length_sample_pool split: sum.split)

lemma qsub_remote_run:
  assumes rem: "\<not> is_local kw" and ready: "job_dir_ready w command kw"
    and m: "merge_last (pbs_array_data_chunks (shuffled w data)) = Inr cs"
  shows "\<exists>w'. qsub w command data kw = Inr w'
     \<and> new_events w w' =
         map Makedirs (dirs_to_make w (qsub_path w command kw))
         @ Print (''Submitting '' @ str_int (int (length data)) @ '' subjobs'')
         # map (\<lambda>((i, c), st). System (Qsub (make_script w kw command (qsub_path w command kw) i c)) st)
               (zip (enumerate 0 cs) (next_statuses w (length cs)))
     \<and> dirs w' = dirs_to_make w (qsub_path w command kw) @ dirs w
     \<and> os_sep w' = os_sep w"
proof -
  let ?path = "qsub_path w command kw"
  let ?w3 = "w\<lparr>dirs := dirs_to_make w ?path @ dirs w,
                randoms := drop (length data) (randoms w),
                trace := trace w @ map Makedirs (dirs_to_make w ?path)
                         @ [Print (''Submitting '' @ str_int (int (length data)) @ '' subjobs'')]\<rparr>"
  let ?w' = "submit_chunks ?w3 kw command ?path (enumerate 0 cs)"
  have q: "qsub w command data kw = Inr ?w'"
    by (simp add: qsub_remote_outcome [OF rem ready] m Let_def)
  have ns: "\<And>d r t n. next_statuses (w\<lparr>dirs := d, randoms := r, trace := t\<rparr>) n = next_statuses w n"
    by (simp add: next_statuses_def)
  have ms: "\<And>d r t i c. make_script (w\<lparr>dirs := d, randoms := r, trace := t\<rparr>) kw command ?path i c
      = make_script w kw command ?path i c"
    by (rule make_script_argv0) simp
  have "trace ?w' = trace w @ (map Makedirs (dirs_to_make w ?path)
         @ Print (''Submitting '' @ str_int (int (length data)) @ '' subjobs'')
         # map (\<lambda>((i, c), st). System (Qsub (make_script w kw command ?path i c)) st)
               (zip (enumerate 0 cs) (next_statuses w (length cs))))"
    by (simp add: submit_chunks_eq ns ms)
  then have "new_events w ?w' = map Makedirs (dirs_to_make w ?path)
         @ Print (''Submitting '' @ str_int (int (length data)) @ '' subjobs'')
         # map (\<lambda>((i, c), st). System (Qsub (make_script w kw command ?path i c)) st)
               (zip (enumerate 0 cs) (next_statuses w (length cs)))"
    by (rule new_events_append)
  moreover have "dirs ?w' = dirs_to_make w ?path @ dirs w" "os_sep ?w' = os_sep w"
    by (simp_all add: submit_chunks_eq)
  ultimately show ?thesis using q by blast
qed


subsection \<open>The chunks of a remote call\<close>

lemma made_dirs_Makedirs: "made_dirs (map Makedirs ds) = ds"
  by (induction ds) simp_all

lemma submitted_Makedirs: "submitted (map Makedirs ds) = []"
  by (induction ds) simp_all

lemma shell_cmds_Makedirs: "shell_cmds (map Makedirs ds) = []"
  by (induction ds) simp_all

lemma exit_statuses_Makedirs: "exit_statuses (map Makedirs ds) = []"
  by (induction ds) simp_all

lemma scripts_of_events:
  assumes "length sts = length ics"
  shows "submitted (map (\<lambda>((i, c), st). System (Qsub (g i c)) st) (zip ics sts)) = map (\<lambda>(i, c). g i c) ics"
    and "shell_cmds (map (\<lambda>((i, c), st). System (Qsub (g i c)) st) (zip ics sts)) = map (\<lambda>(i, c). Qsub (g i c)) ics"
    and "exit_statuses (map (\<lambda>((i, c), st). System (Qsub (g i c)) st) (zip ics sts)) = sts"
    and "made_dirs (map (\<lambda>((i, c), st). System (Qsub (g i c)) st) (zip ics sts)) = []"
  using assms by (induction ics sts rule: list_induct2'; auto)+

lemma length_shuffled: "length (shuffled w data) = length data"
  by (simp add: shuffled_def random_sample_def length_sample_pool)

lemma mset_shuffled: "mset (shuffled w data) = mset data"
  by (simp add: shuffled_def random_sample_def mset_sample_pool)

lemma qsub_remote_scripts:
  assumes rem: "\<not> is_local kw" and ready: "job_dir_ready w command kw"
    and n: "2 \<le> length data"
  shows "\<exists>w' cs. qsub w command data kw = Inr w'
     \<and> merge_last (pbs_array_data_chunks (shuffled w data)) = Inr cs
     \<and> submitted (new_events w w') =
         map (\<lambda>(i, c). make_script w kw command (qsub_path w command kw) i c) (enumerate 0 cs)
     \<and> shell_cmds (new_events w w') =
         map (\<lambda>(i, c). Qsub (make_script w kw command (qsub_path w command kw) i c)) (enumerate 0 cs)
     \<and> exit_statuses (new_events w w') = next_statuses w (length cs)
     \<and> made_dirs (new_events w w') = dirs_to_make w (qsub_path w command kw)
     \<and> dirs w' = dirs_to_make w (qsub_path w command kw) @ dirs w"
proof -
  from n have "2 \<le> length (shuffled w data)" by (simp add: length_shuffled)
  then obtain cs where cs: "merge_last (pbs_array_data_chunks (shuffled w data)) = Inr cs"
    using final_chunks by blast
  have len: "length (next_statuses w (length cs)) = length (enumerate 0 cs)"
    by (simp add: next_statuses_def length_pad_statuses)
  from qsub_remote_run [OF rem ready cs] obtain w' where
    q: "qsub w command data kw = Inr w'" and
    ev: "new_events w w' =
         map Makedirs (dirs_to_make w (qsub_path w command kw))
         @ Print (''Submitting '' @ str_int (int (length data)) @ '' subjobs'')
         # map (\<lambda>((i, c), st). System (Qsub (make_script w kw command (qsub_path w command kw) i c)) st)
               (zip (enumerate 0 cs) (next_statuses w (length cs)))" and
    d: "dirs w' = dirs_to_make w (qsub_path w command kw) @ dirs w"
    by blast
  have "submitted (new_events w w') =
         map (\<lambda>(i, c). make_script w kw command (qsub_path w command kw) i c) (enumerate 0 cs)"
    unfolding ev by (simp add: submitted_append submitted_Makedirs scripts_of_events(1) [OF len])
  moreover have "shell_cmds (new_events w w') =
         map (\<lambda>(i, c). Qsub (make_script w kw command (qsub_path w command kw) i c)) (enumerate 0 cs)"
    unfolding ev by (simp add: shell_cmds_append shell_cmds_Makedirs scripts_of_events(2) [OF len])
  moreover have "exit_statuses (new_events w w') = next_statuses w (length cs)"
    unfolding ev by (simp add: exit_statuses_append exit_statuses_Makedirs scripts_of_events(3) [OF len])
  moreover have "made_dirs (new_events w w') = dirs_to_make w (qsub_path w command kw)"
    unfolding ev by (simp add: made_dirs_append made_dirs_Makedirs scripts_of_events(4) [OF len])
  ultimately show ?thesis using q cs d by blast
qed

lemma make_script_fields:
  "chunk_data (make_script w kw command path i c) = c"
  "array_lo (make_script w kw command path i c) = 1000 * int i"
  "array_hi (make_script w kw command path i c) = 1000 * int i + int (length c) - 1"
  "base_offset (make_script w kw command path i c) = 1000 * int i"
  "script_command (make_script w kw command path i c) = command"
  "script_path (make_script w kw command path i c) = path"
  "out_dir (make_script w kw command path i c) = path @ ''job''"
  "err_dir (make_script w kw command path i c) = path @ ''job''"
  by (simp_all add: make_script_def)

lemma chunk_data_scripts:
  "map chunk_data (map (\<lambda>(i, c). make_script w kw command path i c) (enumerate n cs)) = cs"
proof -
  have "map chunk_data (map (\<lambda>(i, c). make_script w kw command path i c) (enumerate n cs))
      = map snd (enumerate n cs)"
    by (simp add: make_script_fields case_prod_unfold comp_def)
  then show ?thesis by simp
qed

lemma last_len_upper: "Suc i = (n + 999) div 1000 \<Longrightarrow> n - 1000 * i \<le> (1000::nat)"
  by linarith

lemma last_len_lower:
  assumes "Suc i = (n + 999) div 1000" and "n mod 1000 \<noteq> 1" and "2 \<le> (n::nat)"
  shows "2 \<le> n - 1000 * i"
proof (rule ccontr)
  assume neg: "\<not> 2 \<le> n - 1000 * i"
  from assms(1) have "1000 * i + 1 \<le> n" by linarith
  with neg have "n = 1000 * i + 1" by linarith
  then have "n mod 1000 = 1" by simp
  with assms(2) show False by simp
qed

lemma final_chunk_bounds:
  assumes n: "2 \<le> length ys"
    and m: "merge_last (pbs_array_data_chunks ys) = Inr cs"
    and c: "c \<in> set cs"
  shows "2 \<le> length c \<and> length c \<le> 1000"
proof -
  from c obtain i where i: "i < length cs" and ci: "c = cs ! i" by (metis in_set_conv_nth)
  note len = final_chunk_lengths [OF n m i]
  have mm: "length cs = (length ys + 999) div 1000" using m by (rule final_chunks_length)
  show ?thesis
  proof (cases "Suc i = length cs")
    case True
    show ?thesis
    proof (cases "length ys mod 1000 = 1")
      case True
      with \<open>Suc i = length cs\<close> len ci show ?thesis by simp
    next
      case False
      from True mm have s: "Suc i = (length ys + 999) div 1000" by simp
      from True False len ci have "length c = length ys - 1000 * i" by simp
      with last_len_upper [OF s] last_len_lower [OF s False n] show ?thesis by simp
    qed
  next
    case False
    with len ci show ?thesis by (simp split: if_splits)
  qed
qed

lemma final_chunks_1001:
  assumes n: "length ys = 1001"
    and m: "merge_last (pbs_array_data_chunks ys) = Inr cs"
  shows "map length cs = [999, 2]"
proof -
  from n have n2: "2 \<le> length ys" by simp
  have "length cs = (length ys + 999) div 1000" using m by (rule final_chunks_length)
  with n have l: "length cs = 2" by simp
  then obtain a b where cs: "cs = [a, b]"
    by (metis (no_types) One_nat_def Suc_1 length_0_conv length_Suc_conv)
  have "length (cs ! 0) = 999" using final_chunk_lengths [OF n2 m, of 0] l n by simp
  moreover have "length (cs ! 1) = 2" using final_chunk_lengths [OF n2 m, of 1] l n by simp
  ultimately show ?thesis using cs by simp
qed

text \<open>
  C1. In remote mode, for every input of at least two argument tuples, the chunks
  written into the submitted scripts, concatenated in emission order, are a
  permutation of the input: each tuple occurrence of the input is in exactly one
  chunk, exactly once, and nothing else is.
\<close>

theorem remote_chunks_permute_input:
  assumes "\<not> is_local kw" and "job_dir_ready w command kw" and "2 \<le> length data"
  shows "\<exists>w'. qsub w command data kw = Inr w'
     \<and> mset (concat (map chunk_data (submitted (new_events w w')))) = mset data"
proof -
  from qsub_remote_scripts [OF assms] obtain w' cs where
    q: "qsub w command data kw = Inr w'" and
    cs: "merge_last (pbs_array_data_chunks (shuffled w data)) = Inr cs" and
    sub: "submitted (new_events w w') =
         map (\<lambda>(i, c). make_script w kw command (qsub_path w command kw) i c) (enumerate 0 cs)"
    by blast
  have "map chunk_data (submitted (new_events w w')) = cs"
    unfolding sub by (rule chunk_data_scripts)
  moreover have "concat cs = shuffled w data" using cs by (rule final_chunks_concat)
  ultimately have "mset (concat (map chunk_data (submitted (new_events w w')))) = mset data"
    by (simp add: mset_shuffled)
  with q show ?thesis by blast
qed

theorem remote_chunks_permute_input_witness:
  "\<not> is_local no_kwargs \<and> job_dir_ready posix_world ''echo'' no_kwargs \<and> 2 \<le> length two_tuples
   \<and> (\<exists>w'. qsub posix_world ''echo'' two_tuples no_kwargs = Inr w'
        \<and> mset (concat (map chunk_data (submitted (new_events posix_world w')))) = mset two_tuples)"
proof -
  have h1: "\<not> is_local no_kwargs" by (simp add: is_local_def no_kwargs_def)
  have h2: "job_dir_ready posix_world ''echo'' no_kwargs"
    by (simp add: job_dir_ready_def posix_world_def no_kwargs_def)
  have h3: "2 \<le> length two_tuples" by (simp add: two_tuples_def)
  from remote_chunks_permute_input [OF h1 h2 h3] h1 h2 h3 show ?thesis by blast
qed

text \<open>
  C2. In remote mode, for every input of at least two argument tuples, every chunk
  written into a submitted script has between 2 and 1000 tuples, the chunk lengths
  add up to the number of input tuples, and an input of 1001 tuples gives exactly
  two chunks, of 999 and of 2 tuples.
\<close>

theorem remote_chunk_lengths:
  assumes "\<not> is_local kw" and "job_dir_ready w command kw" and "2 \<le> length data"
  shows "\<exists>w'. qsub w command data kw = Inr w'
     \<and> (\<forall>s \<in> set (submitted (new_events w w')).
           2 \<le> length (chunk_data s) \<and> length (chunk_data s) \<le> 1000)
     \<and> sum_list (map length (map chunk_data (submitted (new_events w w')))) = length data
     \<and> (length data = 1001 \<longrightarrow>
           map length (map chunk_data (submitted (new_events w w'))) = [999, 2])"
proof -
  from qsub_remote_scripts [OF assms] obtain w' cs where
    q: "qsub w command data kw = Inr w'" and
    cs: "merge_last (pbs_array_data_chunks (shuffled w data)) = Inr cs" and
    sub: "submitted (new_events w w') =
         map (\<lambda>(i, c). make_script w kw command (qsub_path w command kw) i c) (enumerate 0 cs)"
    by blast
  have cd: "map chunk_data (submitted (new_events w w')) = cs"
    unfolding sub by (rule chunk_data_scripts)
  from assms(3) have n: "2 \<le> length (shuffled w data)" by (simp add: length_shuffled)
  have bounds: "\<forall>s \<in> set (submitted (new_events w w')).
       2 \<le> length (chunk_data s) \<and> length (chunk_data s) \<le> 1000"
  proof
    fix s assume "s \<in> set (submitted (new_events w w'))"
    then have "chunk_data s \<in> set (map chunk_data (submitted (new_events w w')))" by simp
    then have "chunk_data s \<in> set cs" by (simp only: cd)
    with n cs show "2 \<le> length (chunk_data s) \<and> length (chunk_data s) \<le> 1000"
      by (rule final_chunk_bounds)
  qed
  have "concat cs = shuffled w data" using cs by (rule final_chunks_concat)
  then have "length (concat cs) = length data" by (simp add: length_shuffled)
  then have total: "sum_list (map length (map chunk_data (submitted (new_events w w')))) = length data"
    by (simp only: cd length_concat)
  have special: "length data = 1001 \<longrightarrow>
      map length (map chunk_data (submitted (new_events w w'))) = [999, 2]"
  proof
    assume "length data = 1001"
    then have "length (shuffled w data) = 1001" by (simp add: length_shuffled)
    then have "map length cs = [999, 2]" using cs by (rule final_chunks_1001)
    then show "map length (map chunk_data (submitted (new_events w w'))) = [999, 2]"
      by (simp only: cd)
  qed
  show ?thesis
    by (intro exI [of _ w'] conjI) (rule q bounds total special)+
qed

theorem remote_chunk_lengths_witness:
  "\<not> is_local no_kwargs \<and> job_dir_ready posix_world ''echo'' no_kwargs
   \<and> 2 \<le> length (replicate 1001 [PInt 7])
   \<and> (\<exists>w'. qsub posix_world ''echo'' (replicate 1001 [PInt 7]) no_kwargs = Inr w'
        \<and> map length (map chunk_data (submitted (new_events posix_world w'))) = [999, 2])"
proof -
  have h1: "\<not> is_local no_kwargs" by (simp add: is_local_def no_kwargs_def)
  have h2: "job_dir_ready posix_world ''echo'' no_kwargs"
    by (simp add: job_dir_ready_def posix_world_def no_kwargs_def)
  have h3: "2 \<le> length (replicate 1001 [PInt 7])" by simp
  have h4: "length (replicate 1001 [PInt 7]) = 1001" by simp
  from remote_chunk_lengths [OF h1 h2 h3] obtain w' where
    a: "qsub posix_world ''echo'' (replicate 1001 [PInt 7]) no_kwargs = Inr w'" and
    b: "length (replicate 1001 [PInt 7]) = 1001 \<longrightarrow>
        map length (map chunk_data (submitted (new_events posix_world w'))) = [999, 2]"
    by auto
  from b h4 have c: "map length (map chunk_data (submitted (new_events posix_world w'))) = [999, 2]"
    by (rule mp)
  show ?thesis
    by (intro exI [of _ w'] conjI) (rule h1 h2 h3 a c)+
qed


subsection \<open>Array ranges\<close>

lemma script_nth:
  assumes "i < length cs"
  shows "map (\<lambda>(i, c). make_script w kw command path i c) (enumerate 0 cs) ! i
         = make_script w kw command path i (cs ! i)"
  using assms by (simp add: nth_enumerate_eq)

lemma length_scripts:
  "length (map (\<lambda>(i, c). make_script w kw command path i c) (enumerate 0 cs)) = length cs"
  by simp

lemma inner_chunk_full:
  assumes n: "2 \<le> length ys"
    and m: "merge_last (pbs_array_data_chunks ys) = Inr cs"
    and i: "Suc i < length cs"
  shows "(length (cs ! i) = 1000) = (Suc (Suc i) < length cs \<or> length ys mod 1000 \<noteq> 1)"
proof -
  from i have i': "i < length cs" by simp
  from i have ne: "Suc i \<noteq> length cs" by simp
  have "length (cs ! i) = (if Suc (Suc i) = length cs \<and> length ys mod 1000 = 1 then 999 else 1000)"
    using final_chunk_lengths [OF n m i'] ne by simp
  moreover from i have "(Suc (Suc i) = length cs) = (\<not> Suc (Suc i) < length cs)" by linarith
  ultimately show ?thesis by simp
qed

lemma ranges_apart:
  assumes "i < j" and "len \<le> (1000::nat)"
  shows "1000 * int i + int len - 1 < 1000 * int j"
  using assms by linarith

lemma ranges_touch:
  "(1000 * int i + int len - 1 + 1 = 1000 * int (Suc i)) = (len = 1000)"
proof
  assume "1000 * int i + int len - 1 + 1 = 1000 * int (Suc i)"
  then have "int len = 1000" by simp
  then show "len = 1000" by linarith
next
  assume "len = 1000"
  then show "1000 * int i + int len - 1 + 1 = 1000 * int (Suc i)" by simp
qed

lemma array_range_scripts:
  "map array_range (map (\<lambda>(i, c). make_script w kw command path i c) (enumerate n cs))
   = map (\<lambda>(i, c). (1000 * int i, 1000 * int i + int (length c) - 1)) (enumerate n cs)"
  by (simp add: array_range_def make_script_fields case_prod_unfold comp_def)

lemma ranges_1001:
  assumes "map length cs = [999, 2]"
  shows "map (\<lambda>(i, c). (1000 * int i, 1000 * int i + int (length c) - 1)) (enumerate 0 cs)
         = [(0, 998), (1000, 1001)]"
proof -
  from assms obtain a b where cs: "cs = [a, b]" and a: "length a = 999" and b: "length b = 2"
    by (auto simp: map_eq_Cons_conv)
  show ?thesis by (simp add: cs a b)
qed

text \<open>
  C3, as the claim states it, fails on 1001 tuples: the two submissions carry the
  ranges 0-998 and 1000-1001, so index 999 lies between them and they are not
  contiguous.
\<close>

theorem ranges_not_contiguous_1001:
  "map array_range (submitted (new_events posix_world
      (outcome_world (qsub posix_world ''echo'' (replicate 1001 [PInt 7]) no_kwargs))))
     = [(0, 998), (1000, 1001)]
   \<and> \<not> contiguous_ranges (map array_range (submitted (new_events posix_world
      (outcome_world (qsub posix_world ''echo'' (replicate 1001 [PInt 7]) no_kwargs)))))"
proof -
  have h1: "\<not> is_local no_kwargs" by (simp add: is_local_def no_kwargs_def)
  have h2: "job_dir_ready posix_world ''echo'' no_kwargs"
    by (simp add: job_dir_ready_def posix_world_def no_kwargs_def)
  have h3: "2 \<le> length (replicate 1001 [PInt 7])" by simp
  from qsub_remote_scripts [OF h1 h2 h3] obtain w' cs where
    q: "qsub posix_world ''echo'' (replicate 1001 [PInt 7]) no_kwargs = Inr w'" and
    cs: "merge_last (pbs_array_data_chunks (shuffled posix_world (replicate 1001 [PInt 7]))) = Inr cs" and
    sub: "submitted (new_events posix_world w') =
         map (\<lambda>(i, c). make_script posix_world no_kwargs ''echo''
                (qsub_path posix_world ''echo'' no_kwargs) i c) (enumerate 0 cs)"
    by blast
  have "length (shuffled posix_world (replicate 1001 [PInt 7])) = 1001"
    by (simp add: length_shuffled)
  then have "map length cs = [999, 2]" using cs by (rule final_chunks_1001)
  then have "map array_range (submitted (new_events posix_world w')) = [(0, 998), (1000, 1001)]"
    unfolding sub array_range_scripts by (rule ranges_1001)
  moreover have "outcome_world (qsub posix_world ''echo'' (replicate 1001 [PInt 7]) no_kwargs) = w'"
    by (simp add: q outcome_world_def)
  ultimately show ?thesis by simp
qed

text \<open>
  C3, amended. In remote mode the submission of the chunk with emission index \<open>i\<close>
  carries the array range from \<open>1000 * i\<close> to \<open>1000 * i + chunkLength - 1\<close>, which is
  not empty; the ranges are pairwise disjoint and increase in emission order; and two
  consecutive ranges are contiguous except the last two when the number of tuples is
  1 modulo 1000 (the final chunk was merged: the second-to-last range then stops one
  index short).
\<close>

theorem remote_array_ranges:
  assumes "\<not> is_local kw" and "job_dir_ready w command kw" and "2 \<le> length data"
  shows "\<exists>w'. qsub w command data kw = Inr w'
     \<and> (\<forall>i < length (submitted (new_events w w')).
           array_lo (submitted (new_events w w') ! i) = 1000 * int i
         \<and> array_hi (submitted (new_events w w') ! i)
             = 1000 * int i + int (length (chunk_data (submitted (new_events w w') ! i))) - 1
         \<and> array_lo (submitted (new_events w w') ! i) \<le> array_hi (submitted (new_events w w') ! i))
     \<and> (\<forall>i j. i < j \<and> j < length (submitted (new_events w w')) \<longrightarrow>
           array_hi (submitted (new_events w w') ! i) < array_lo (submitted (new_events w w') ! j))
     \<and> (\<forall>i. Suc i < length (submitted (new_events w w')) \<longrightarrow>
           (array_hi (submitted (new_events w w') ! i) + 1
              = array_lo (submitted (new_events w w') ! Suc i))
           = (Suc (Suc i) < length (submitted (new_events w w')) \<or> length data mod 1000 \<noteq> 1))"
proof -
  let ?path = "qsub_path w command kw"
  from qsub_remote_scripts [OF assms] obtain w' cs where
    q: "qsub w command data kw = Inr w'" and
    cs: "merge_last (pbs_array_data_chunks (shuffled w data)) = Inr cs" and
    sub: "submitted (new_events w w') =
         map (\<lambda>(i, c). make_script w kw command ?path i c) (enumerate 0 cs)"
    by blast
  let ?ss = "submitted (new_events w w')"
  have len: "length ?ss = length cs" unfolding sub by simp
  have nth: "\<And>i. i < length cs \<Longrightarrow> ?ss ! i = make_script w kw command ?path i (cs ! i)"
    unfolding sub by (rule script_nth)
  from assms(3) have n: "2 \<le> length (shuffled w data)" by (simp add: length_shuffled)
  have bnd: "\<And>i. i < length cs \<Longrightarrow> 2 \<le> length (cs ! i) \<and> length (cs ! i) \<le> 1000"
    using final_chunk_bounds [OF n cs] by simp
  have a: "\<forall>i < length ?ss.
           array_lo (?ss ! i) = 1000 * int i
         \<and> array_hi (?ss ! i) = 1000 * int i + int (length (chunk_data (?ss ! i))) - 1
         \<and> array_lo (?ss ! i) \<le> array_hi (?ss ! i)"
  proof (intro allI impI)
    fix i assume "i < length ?ss"
    then have i: "i < length cs" by (simp only: len)
    from bnd [OF i] have "cs ! i \<noteq> []" by auto
    then show "array_lo (?ss ! i) = 1000 * int i
         \<and> array_hi (?ss ! i) = 1000 * int i + int (length (chunk_data (?ss ! i))) - 1
         \<and> array_lo (?ss ! i) \<le> array_hi (?ss ! i)"
      by (simp add: nth [OF i] make_script_fields)
  qed
  have b: "\<forall>i j. i < j \<and> j < length ?ss \<longrightarrow> array_hi (?ss ! i) < array_lo (?ss ! j)"
  proof (intro allI impI)
    fix i j assume ij: "i < j \<and> j < length ?ss"
    then have j: "j < length cs" and i: "i < length cs" and lt: "i < j" by (simp_all add: len)
    from bnd [OF i] have "length (cs ! i) \<le> 1000" by simp
    with lt have "1000 * int i + int (length (cs ! i)) - 1 < 1000 * int j"
      by (rule ranges_apart)
    then show "array_hi (?ss ! i) < array_lo (?ss ! j)"
      by (simp add: nth [OF i] nth [OF j] make_script_fields)
  qed
  have c: "\<forall>i. Suc i < length ?ss \<longrightarrow>
           (array_hi (?ss ! i) + 1 = array_lo (?ss ! Suc i))
           = (Suc (Suc i) < length ?ss \<or> length data mod 1000 \<noteq> 1)"
  proof (intro allI impI)
    fix i assume "Suc i < length ?ss"
    then have si: "Suc i < length cs" by (simp only: len)
    then have i: "i < length cs" by simp
    have "(array_hi (?ss ! i) + 1 = array_lo (?ss ! Suc i)) = (length (cs ! i) = 1000)"
      by (simp only: nth [OF i] nth [OF si] make_script_fields ranges_touch)
    also have "\<dots> = (Suc (Suc i) < length cs \<or> length (shuffled w data) mod 1000 \<noteq> 1)"
      using n cs si by (rule inner_chunk_full)
    finally show "(array_hi (?ss ! i) + 1 = array_lo (?ss ! Suc i))
           = (Suc (Suc i) < length ?ss \<or> length data mod 1000 \<noteq> 1)"
      by (simp only: len length_shuffled)
  qed
  show ?thesis
    by (intro exI [of _ w'] conjI) (rule q a b c)+
qed

theorem remote_array_ranges_witness:
  "\<not> is_local no_kwargs \<and> job_dir_ready posix_world ''echo'' no_kwargs \<and> 2 \<le> length two_tuples
   \<and> (\<exists>w'. qsub posix_world ''echo'' two_tuples no_kwargs = Inr w'
     \<and> (\<forall>i < length (submitted (new_events posix_world w')).
           array_lo (submitted (new_events posix_world w') ! i) = 1000 * int i
         \<and> array_hi (submitted (new_events posix_world w') ! i)
             = 1000 * int i + int (length (chunk_data (submitted (new_events posix_world w') ! i))) - 1
         \<and> array_lo (submitted (new_events posix_world w') ! i)
             \<le> array_hi (submitted (new_events posix_world w') ! i))
     \<and> (\<forall>i j. i < j \<and> j < length (submitted (new_events posix_world w')) \<longrightarrow>
           array_hi (submitted (new_events posix_world w') ! i)
             < array_lo (submitted (new_events posix_world w') ! j))
     \<and> (\<forall>i. Suc i < length (submitted (new_events posix_world w')) \<longrightarrow>
           (array_hi (submitted (new_events posix_world w') ! i) + 1
              = array_lo (submitted (new_events posix_world w') ! Suc i))
           = (Suc (Suc i) < length (submitted (new_events posix_world w'))
              \<or> length two_tuples mod 1000 \<noteq> 1)))"
proof -
  have h1: "\<not> is_local no_kwargs" by (simp add: is_local_def no_kwargs_def)
  have h2: "job_dir_ready posix_world ''echo'' no_kwargs"
    by (simp add: job_dir_ready_def posix_world_def no_kwargs_def)
  have h3: "2 \<le> length two_tuples" by (simp add: two_tuples_def)
  show ?thesis
    by (intro conjI) (rule h1 h2 h3 remote_array_ranges [OF h1 h2 h3])+
qed

lemma bash_split_space:
  "bash_split cur (a @ CHR '' '' # b) = bash_split cur a @ bash_split [] b"
  by (induction a arbitrary: cur) (simp_all add: is_ifs_def)

lemma bash_words_space: "bash_words (a @ '' '' @ b) = bash_words a @ bash_words b"
  by (simp add: bash_words_def bash_split_space)

lemma bash_words_command_line:
  "bash_words (command_line command args path)
   = bash_words command @ bash_words args @ bash_words path"
  by (simp only: command_line_def bash_words_space)


subsection \<open>Local mode and the single tuple\<close>

lemma str_args_a1: "str_args [PStr ''a'', PInt 1] = ''a 1''"
  by code_simp

lemma str_args_b2: "str_args [PStr ''b'', PInt 2] = ''b 2''"
  by code_simp

lemma local_events:
  assumes "length sts = length data"
  shows "shell_cmds (map (\<lambda>(t, st). System (Bash (f t)) st) (zip data sts)) = map (\<lambda>t. Bash (f t)) data"
    and "exit_statuses (map (\<lambda>(t, st). System (Bash (f t)) st) (zip data sts)) = sts"
    and "made_dirs (map (\<lambda>(t, st). System (Bash (f t)) st) (zip data sts)) = []"
  using assms by (induction data sts rule: list_induct2'; simp)+

lemma qsub_local_cmds:
  assumes loc: "is_local kw" and ready: "job_dir_ready w command kw"
  shows "\<exists>w'. qsub w command data kw = Inr w'
     \<and> shell_cmds (new_events w w') =
         map (\<lambda>t. Bash (local_script (local_cd kw) (str_args t) command (qsub_path w command kw))) data
     \<and> submitted (new_events w w') = []
     \<and> exit_statuses (new_events w w') = next_statuses w (length data)
     \<and> made_dirs (new_events w w') = dirs_to_make w (qsub_path w command kw)
     \<and> dirs w' = dirs_to_make w (qsub_path w command kw) @ dirs w
     \<and> randoms w' = randoms w"
proof -
  from qsub_local_run [OF loc ready, of data] obtain w' where
    q: "qsub w command data kw = Inr w'" and
    ev: "new_events w w' =
         map Makedirs (dirs_to_make w (qsub_path w command kw))
         @ map (\<lambda>(t, st). System (Bash (local_script (local_cd kw) (str_args t) command
                                          (qsub_path w command kw))) st)
               (zip data (next_statuses w (length data)))" and
    d: "dirs w' = dirs_to_make w (qsub_path w command kw) @ dirs w" and
    r: "randoms w' = randoms w"
    by blast
  have len: "length (next_statuses w (length data)) = length data"
    by (simp add: next_statuses_def length_pad_statuses)
  have "shell_cmds (new_events w w') =
         map (\<lambda>t. Bash (local_script (local_cd kw) (str_args t) command (qsub_path w command kw))) data"
    unfolding ev by (simp add: shell_cmds_append shell_cmds_Makedirs local_events(1) [OF len])
  moreover have "submitted (new_events w w') = []"
    unfolding ev by (simp add: submitted_append submitted_Makedirs submitted_bash_events)
  moreover have "exit_statuses (new_events w w') = next_statuses w (length data)"
    unfolding ev by (simp add: exit_statuses_append exit_statuses_Makedirs local_events(2) [OF len])
  moreover have "made_dirs (new_events w w') = dirs_to_make w (qsub_path w command kw)"
    unfolding ev by (simp add: made_dirs_append made_dirs_Makedirs local_events(3) [OF len])
  ultimately show ?thesis using q d r by blast
qed

lemma qsub_path_echo: "qsub_path posix_world ''echo'' (no_kwargs\<lparr>kw_local := l\<rparr>) = ''echo/''"
  by (simp add: qsub_path_def posix_world_def no_kwargs_def resolve_path_def)

lemma short_data_fails:
  assumes "length ys < 2"
  shows "merge_last (pbs_array_data_chunks ys) = Inl IndexError"
proof (cases "ys = []")
  case True
  then have "pbs_array_data_chunks ys = []" by (simp add: chunks_Nil_iff)
  then show ?thesis by (simp add: merge_last_Nil)
next
  case False
  with assms have l: "length ys = 1" by (cases ys) auto
  then have "length (pbs_array_data_chunks ys) = 1" by (simp add: length_chunks)
  then obtain f where f: "pbs_array_data_chunks ys = [f]"
    by (metis One_nat_def length_0_conv length_Suc_conv)
  have "concat (pbs_array_data_chunks ys) = ys" by (rule concat_chunks)
  with f have "f = ys" by simp
  with f l show ?thesis by (simp add: merge_last_single)
qed

lemma str_int_1: "str_int 1 = ''1''"
  by code_simp

lemma qsub_remote_short:
  assumes rem: "\<not> is_local kw" and ready: "job_dir_ready w command kw"
    and short: "length data < 2"
  shows "\<exists>w'. qsub w command data kw = Inl (IndexError, w')
     \<and> new_events w w' =
         map Makedirs (dirs_to_make w (qsub_path w command kw))
         @ [Print (''Submitting '' @ str_int (int (length data)) @ '' subjobs'')]"
proof -
  from short have "length (shuffled w data) < 2" by (simp add: length_shuffled)
  then have m: "merge_last (pbs_array_data_chunks (shuffled w data)) = Inl IndexError"
    by (rule short_data_fails)
  let ?w3 = "w\<lparr>dirs := dirs_to_make w (qsub_path w command kw) @ dirs w,
                randoms := drop (length data) (randoms w),
                trace := trace w @ map Makedirs (dirs_to_make w (qsub_path w command kw))
                         @ [Print (''Submitting '' @ str_int (int (length data)) @ '' subjobs'')]\<rparr>"
  have q: "qsub w command data kw = Inl (IndexError, ?w3)"
    by (simp add: qsub_remote_outcome [OF rem ready] m Let_def)
  have "trace ?w3 = trace w @ (map Makedirs (dirs_to_make w (qsub_path w command kw))
         @ [Print (''Submitting '' @ str_int (int (length data)) @ '' subjobs'')])" by simp
  then have "new_events w ?w3 = map Makedirs (dirs_to_make w (qsub_path w command kw))
         @ [Print (''Submitting '' @ str_int (int (length data)) @ '' subjobs'')]"
    by (rule new_events_append)
  with q show ?thesis by blast
qed

text \<open>
  C6. What the code does with one argument tuple in remote mode: it makes the job
  directory, prints the number of subjobs, and then the repair of the final chunk
  reads the second-to-last of one chunk and raises \<^verbatim>\<open>IndexError\<close>. Nothing is handed to
  the scheduler. The exception is the one of a list index out of range, raised after
  the directory was made: the input is not checked.
\<close>

theorem remote_single_tuple_raises:
  assumes "\<not> is_local kw" and "job_dir_ready w command kw"
  shows "\<exists>w'. qsub w command [t] kw = Inl (IndexError, w')
     \<and> new_events w w' =
         map Makedirs (dirs_to_make w (qsub_path w command kw)) @ [Print ''Submitting 1 subjobs'']
     \<and> shell_cmds (new_events w w') = []"
proof -
  from qsub_remote_short [OF assms, of "[t]"] obtain w' where
    q: "qsub w command [t] kw = Inl (IndexError, w')" and
    ev: "new_events w w' =
         map Makedirs (dirs_to_make w (qsub_path w command kw)) @ [Print ''Submitting 1 subjobs'']"
    by (auto simp: str_int_1)
  have "shell_cmds (new_events w w') = []"
    unfolding ev by (simp add: shell_cmds_append shell_cmds_Makedirs)
  with q ev show ?thesis by blast
qed

theorem remote_single_tuple_raises_witness:
  "\<not> is_local no_kwargs \<and> job_dir_ready posix_world ''echo'' no_kwargs
   \<and> (\<exists>w'. qsub posix_world ''echo'' [[PStr ''a'', PInt 1]] no_kwargs = Inl (IndexError, w')
        \<and> new_events posix_world w' = [Makedirs ''echo/job'', Print ''Submitting 1 subjobs'']
        \<and> shell_cmds (new_events posix_world w') = [])"
proof -
  have h1: "\<not> is_local no_kwargs" by (simp add: is_local_def no_kwargs_def)
  have h2: "job_dir_ready posix_world ''echo'' no_kwargs"
    by (simp add: job_dir_ready_def posix_world_def no_kwargs_def)
  have p: "qsub_path posix_world ''echo'' no_kwargs = ''echo/''"
    by (simp add: qsub_path_def posix_world_def no_kwargs_def resolve_path_def)
  have d: "dirs_to_make posix_world ''echo/'' = [''echo/job'']"
    by (simp add: dirs_to_make_def os_path_isdir_def posix_world_def)
  from remote_single_tuple_raises [OF h1 h2, of "[PStr ''a'', PInt 1]"] obtain w' where
    q: "qsub posix_world ''echo'' [[PStr ''a'', PInt 1]] no_kwargs = Inl (IndexError, w')" and
    ev: "new_events posix_world w' = [Makedirs ''echo/job'', Print ''Submitting 1 subjobs'']" and
    sc: "shell_cmds (new_events posix_world w') = []"
    by (auto simp: p d)
  show ?thesis
    by (intro exI [of _ w'] conjI) (rule h1 h2 q ev sc)+
qed


subsection \<open>The output path\<close>

lemma resolve_path_supplied:
  "p \<noteq> [] \<Longrightarrow> last p \<noteq> sep \<Longrightarrow> resolve_path sep command (Some p) = p @ [sep]"
  "p \<noteq> [] \<Longrightarrow> last p = sep \<Longrightarrow> resolve_path sep command (Some p) = p"
  "resolve_path sep command (Some []) = []"
  by (simp_all add: resolve_path_def)

lemma resolve_path_idem:
  "resolve_path sep command (Some (resolve_path sep command (Some p))) = resolve_path sep command (Some p)"
  by (simp add: resolve_path_def)

lemma script_paths:
  assumes "s \<in> set (map (\<lambda>(i, c). make_script w kw command path i c) (enumerate n cs))"
  shows "script_path s = path \<and> out_dir s = path @ ''job'' \<and> err_dir s = path @ ''job''
         \<and> script_command s = command"
  using assms by (auto simp: make_script_fields)

text \<open>What every successful call does with the resolved path, in either mode.\<close>

lemma qsub_uses_path:
  assumes ready: "job_dir_ready w command kw" and ok: "is_local kw \<or> 2 \<le> length data"
  shows "\<exists>w'. qsub w command data kw = Inr w'
     \<and> made_dirs (new_events w w') = dirs_to_make w (qsub_path w command kw)
     \<and> dirs w' = dirs_to_make w (qsub_path w command kw) @ dirs w
     \<and> (if is_local kw
         then shell_cmds (new_events w w') =
                map (\<lambda>t. Bash (local_script (local_cd kw) (str_args t) command (qsub_path w command kw))) data
         else shell_cmds (new_events w w') = map Qsub (submitted (new_events w w'))
              \<and> length (submitted (new_events w w')) = (length data + 999) div 1000
              \<and> list_all (\<lambda>s. script_path s = qsub_path w command kw
                               \<and> out_dir s = qsub_path w command kw @ ''job''
                               \<and> err_dir s = qsub_path w command kw @ ''job''
                               \<and> script_command s = command)
                   (submitted (new_events w w')))"
proof (cases "is_local kw")
  case True
  from qsub_local_cmds [OF True ready, of data] True show ?thesis by auto
next
  case False
  with ok have n: "2 \<le> length data" by simp
  from qsub_remote_scripts [OF False ready n] obtain w' cs where
    q: "qsub w command data kw = Inr w'" and
    cs: "merge_last (pbs_array_data_chunks (shuffled w data)) = Inr cs" and
    sub: "submitted (new_events w w') =
         map (\<lambda>(i, c). make_script w kw command (qsub_path w command kw) i c) (enumerate 0 cs)" and
    sc: "shell_cmds (new_events w w') =
         map (\<lambda>(i, c). Qsub (make_script w kw command (qsub_path w command kw) i c)) (enumerate 0 cs)" and
    md: "made_dirs (new_events w w') = dirs_to_make w (qsub_path w command kw)" and
    d: "dirs w' = dirs_to_make w (qsub_path w command kw) @ dirs w"
    by blast
  have a: "shell_cmds (new_events w w') = map Qsub (submitted (new_events w w'))"
    unfolding sub sc by (simp add: case_prod_unfold comp_def)
  have "length cs = (length (shuffled w data) + 999) div 1000" using cs by (rule final_chunks_length)
  then have b: "length (submitted (new_events w w')) = (length data + 999) div 1000"
    unfolding sub by (simp add: length_shuffled)
  have c: "list_all (\<lambda>s. script_path s = qsub_path w command kw
                               \<and> out_dir s = qsub_path w command kw @ ''job''
                               \<and> err_dir s = qsub_path w command kw @ ''job''
                               \<and> script_command s = command)
                   (submitted (new_events w w'))"
    unfolding sub list_all_iff using script_paths by blast
  from False q md d a b c show ?thesis by auto
qed

lemma empty_path_facts:
  "is_local empty_path_kwargs"
  "job_dir_ready posix_world ''echo'' empty_path_kwargs"
  "qsub_path posix_world ''echo'' empty_path_kwargs = []"
  "local_cd empty_path_kwargs = ''.''"
  "dirs_to_make posix_world [] = [''job'']"
  by (simp_all add: is_local_def job_dir_ready_def qsub_path_def local_cd_def dirs_to_make_def
      os_path_isdir_def empty_path_kwargs_def no_kwargs_def posix_world_def resolve_path_def)

text \<open>
  C7, as the claim states it, fails for the empty path: it has no trailing separator
  and none is appended. The directory made is \<open>job\<close>, not \<open>/job\<close>, and the command
  lines end with the empty path.
\<close>

theorem empty_path_gets_no_separator:
  "resolve_path (os_sep posix_world) ''echo'' (kw_path empty_path_kwargs) = []
   \<and> made_dirs (new_events posix_world
         (outcome_world (qsub posix_world ''echo'' two_tuples empty_path_kwargs))) = [''job'']
   \<and> shell_cmds (new_events posix_world
         (outcome_world (qsub posix_world ''echo'' two_tuples empty_path_kwargs)))
       = [Bash (local_script ''.'' ''a 1'' ''echo'' []), Bash (local_script ''.'' ''b 2'' ''echo'' [])]"
proof -
  have ok: "is_local empty_path_kwargs \<or> 2 \<le> length two_tuples"
    by (simp add: empty_path_facts)
  from qsub_uses_path [OF empty_path_facts(2) ok] obtain w' where
    q: "qsub posix_world ''echo'' two_tuples empty_path_kwargs = Inr w'" and
    md: "made_dirs (new_events posix_world w') = [''job'']" and
    sc: "shell_cmds (new_events posix_world w') =
           map (\<lambda>t. Bash (local_script ''.'' (str_args t) ''echo'' [])) two_tuples"
    by (auto simp: empty_path_facts)
  have o: "outcome_world (qsub posix_world ''echo'' two_tuples empty_path_kwargs) = w'"
    by (simp add: q outcome_world_def)
  have r: "resolve_path (os_sep posix_world) ''echo'' (kw_path empty_path_kwargs) = []"
    using empty_path_facts(3) by (simp add: qsub_path_def)
  show ?thesis
    unfolding o using r md sc by (simp add: two_tuples_def str_args_a1 str_args_b2)
qed

lemma make_script_kw_path:
  "make_script w (kw\<lparr>kw_path := x\<rparr>) command path i c = make_script w kw command path i c"
  by (simp add: make_script_def)

lemma submit_chunks_kw_path:
  "submit_chunks w (kw\<lparr>kw_path := x\<rparr>) command path ics = submit_chunks w kw command path ics"
  by (simp add: submit_chunks_eq make_script_kw_path)

lemma qsub_resolved_path:
  "qsub w command data (kw\<lparr>kw_path := Some (qsub_path w command kw)\<rparr>) = qsub w command data kw"
proof (cases "kw_path kw")
  case None
  have "resolve_path (os_sep w) command (Some (resolve_path (os_sep w) command None))
        = resolve_path (os_sep w) command None"
    by (simp add: resolve_path_def)
  then show ?thesis
    by (simp add: qsub_def qsub_path_def None Let_def submit_chunks_kw_path random_sample_def
        split: sum.split)
next
  case (Some p)
  then show ?thesis
    by (simp add: qsub_def qsub_path_def resolve_path_idem Let_def submit_chunks_kw_path
        random_sample_def split: sum.split)
qed


subsection \<open>A second call, and the exit statuses\<close>


lemma qsub_success:
  assumes "qsub w command data kw = Inr w1"
  shows "job_dir_ready w command kw"
    and "dirs w1 = dirs_to_make w (qsub_path w command kw) @ dirs w"
    and "os_sep w1 = os_sep w"
proof -
  show ready: "job_dir_ready w command kw"
  proof (rule ccontr)
    assume "\<not> job_dir_ready w command kw"
    then have "qsub w command data kw = Inl (OSError, w)" by (rule qsub_blocked)
    with assms show False by simp
  qed
  show "dirs w1 = dirs_to_make w (qsub_path w command kw) @ dirs w" and "os_sep w1 = os_sep w"
  proof -
    have "dirs w1 = dirs_to_make w (qsub_path w command kw) @ dirs w \<and> os_sep w1 = os_sep w"
    proof (cases "is_local kw")
      case True
      from qsub_local_run [OF True ready, of data] assms show ?thesis by auto
    next
      case False
      show ?thesis
      proof (cases "merge_last (pbs_array_data_chunks (shuffled w data))")
        case (Inl e)
        with assms show ?thesis by (simp add: qsub_remote_outcome [OF False ready] Let_def)
      next
        case (Inr cs)
        from qsub_remote_run [OF False ready Inr] assms show ?thesis by auto
      qed
    qed
    then show "dirs w1 = dirs_to_make w (qsub_path w command kw) @ dirs w" and "os_sep w1 = os_sep w"
      by simp_all
  qed
qed

lemma job_dir_after_call:
  assumes "qsub w command data kw = Inr w1"
  shows "os_path_isdir w1 (qsub_path w1 command kw @ ''job'')"
proof -
  note s = qsub_success [OF assms]
  have p: "qsub_path w1 command kw = qsub_path w command kw" by (simp add: qsub_path_def s(3))
  show ?thesis
    unfolding p by (simp add: os_path_isdir_def s(2) dirs_to_make_def)
qed

text \<open>
  C8. After a call that returned, the job directory is a directory, and a second call
  with the same command and keywords (in local mode, or with at least two tuples)
  returns too: it makes no directory, leaves the directories as they are, and goes on
  to run every tuple or to submit every chunk.
\<close>

theorem second_call_skips_makedirs:
  assumes "qsub w command data kw = Inr w1" and "is_local kw \<or> 2 \<le> length data'"
  shows "os_path_isdir w1 (qsub_path w1 command kw @ ''job'')
     \<and> ensure_job_dir w1 (qsub_path w1 command kw) = Inr w1
     \<and> (\<exists>w2. qsub w1 command data' kw = Inr w2
          \<and> made_dirs (new_events w1 w2) = []
          \<and> dirs w2 = dirs w1
          \<and> length (shell_cmds (new_events w1 w2))
              = (if is_local kw then length data' else (length data' + 999) div 1000))"
proof -
  have d: "os_path_isdir w1 (qsub_path w1 command kw @ ''job'')"
    using assms(1) by (rule job_dir_after_call)
  then have e: "ensure_job_dir w1 (qsub_path w1 command kw) = Inr w1"
    by (simp add: ensure_job_dir_def)
  from d have ready: "job_dir_ready w1 command kw"
    by (simp add: job_dir_ready_def qsub_path_def os_path_isdir_def)
  from d have none: "dirs_to_make w1 (qsub_path w1 command kw) = []"
    by (simp add: dirs_to_make_def)
  from qsub_uses_path [OF ready assms(2)] obtain w2 where
    q: "qsub w1 command data' kw = Inr w2" and
    md: "made_dirs (new_events w1 w2) = []" and
    dd: "dirs w2 = dirs w1" and
    u: "if is_local kw
         then shell_cmds (new_events w1 w2) =
                map (\<lambda>t. Bash (local_script (local_cd kw) (str_args t) command (qsub_path w1 command kw))) data'
         else shell_cmds (new_events w1 w2) = map Qsub (submitted (new_events w1 w2))
              \<and> length (submitted (new_events w1 w2)) = (length data' + 999) div 1000
              \<and> list_all (\<lambda>s. script_path s = qsub_path w1 command kw
                               \<and> out_dir s = qsub_path w1 command kw @ ''job''
                               \<and> err_dir s = qsub_path w1 command kw @ ''job''
                               \<and> script_command s = command)
                   (submitted (new_events w1 w2))"
    unfolding none by auto
  have n: "length (shell_cmds (new_events w1 w2))
              = (if is_local kw then length data' else (length data' + 999) div 1000)"
    using u by (cases "is_local kw") simp_all
  show ?thesis
    by (intro conjI exI [of _ w2]) (rule d e q md dd n)+
qed

theorem second_call_skips_makedirs_witness:
  "\<exists>w1. qsub posix_world ''echo'' two_tuples local_kwargs = Inr w1
     \<and> (is_local local_kwargs \<or> 2 \<le> length two_tuples)
     \<and> os_path_isdir w1 ''echo/job''
     \<and> (\<exists>w2. qsub w1 ''echo'' two_tuples local_kwargs = Inr w2
          \<and> made_dirs (new_events w1 w2) = []
          \<and> dirs w2 = dirs w1
          \<and> length (shell_cmds (new_events w1 w2)) = 2)"
proof -
  have h1: "is_local local_kwargs" by (simp add: is_local_def local_kwargs_def)
  have h2: "job_dir_ready posix_world ''echo'' local_kwargs"
    by (simp add: job_dir_ready_def posix_world_def no_kwargs_def local_kwargs_def)
  from qsub_local_cmds [OF h1 h2, of two_tuples] obtain w1 where
    q1: "qsub posix_world ''echo'' two_tuples local_kwargs = Inr w1" by blast
  have h3: "is_local local_kwargs \<or> 2 \<le> length two_tuples" using h1 by simp
  have "os_sep w1 = os_sep posix_world" using q1 by (rule qsub_success(3))
  then have "qsub_path w1 ''echo'' local_kwargs = qsub_path posix_world ''echo'' local_kwargs"
    by (simp add: qsub_path_def)
  then have p: "qsub_path w1 ''echo'' local_kwargs = ''echo/''"
    by (simp add: local_kwargs_def qsub_path_echo)
  note inst = second_call_skips_makedirs [OF q1 h3]
  from inst have d: "os_path_isdir w1 ''echo/job''" by (simp add: p)
  from inst obtain w2 where
    q2: "qsub w1 ''echo'' two_tuples local_kwargs = Inr w2" and
    md: "made_dirs (new_events w1 w2) = []" and
    dd: "dirs w2 = dirs w1" and
    n: "length (shell_cmds (new_events w1 w2))
          = (if is_local local_kwargs then length two_tuples else (length two_tuples + 999) div 1000)"
    by blast
  from n h1 have n': "length (shell_cmds (new_events w1 w2)) = 2" by (simp add: two_tuples_def)
  have inner: "\<exists>w2. qsub w1 ''echo'' two_tuples local_kwargs = Inr w2
          \<and> made_dirs (new_events w1 w2) = []
          \<and> dirs w2 = dirs w1
          \<and> length (shell_cmds (new_events w1 w2)) = 2"
    by (intro conjI exI [of _ w2]) (rule q2 md dd n')+
  show ?thesis
    by (rule exI [of _ w1], intro conjI) (rule q1 h3 d inner)+
qed

lemma statuses_irrelevant:
  "job_dir_ready (w\<lparr>statuses := sts\<rparr>) command kw = job_dir_ready w command kw"
  "shuffled (w\<lparr>statuses := sts\<rparr>) data = shuffled w data"
  "qsub_path (w\<lparr>statuses := sts\<rparr>) command kw = qsub_path w command kw"
  "make_script (w\<lparr>statuses := sts\<rparr>) kw command path i c = make_script w kw command path i c"
  "next_statuses (w\<lparr>statuses := sts\<rparr>) n = pad_statuses sts n"
  by (simp_all add: job_dir_ready_def shuffled_def random_sample_def qsub_path_def make_script_def
      next_statuses_def)

text \<open>
  C9. In remote mode the exit statuses of the scheduler calls do not matter: whatever
  statuses the calls return, the function returns normally, it has made the same
  calls, one for every chunk and in the same order, as when every call returns 0, and
  the statuses it was given are the ones the calls returned.
\<close>

theorem scheduler_status_ignored:
  assumes "\<not> is_local kw" and "job_dir_ready w command kw" and "2 \<le> length data"
  shows "\<exists>w1 w0. qsub (w\<lparr>statuses := sts\<rparr>) command data kw = Inr w1
     \<and> qsub (w\<lparr>statuses := []\<rparr>) command data kw = Inr w0
     \<and> shell_cmds (new_events (w\<lparr>statuses := sts\<rparr>) w1)
         = shell_cmds (new_events (w\<lparr>statuses := []\<rparr>) w0)
     \<and> shell_cmds (new_events (w\<lparr>statuses := sts\<rparr>) w1)
         = map Qsub (submitted (new_events (w\<lparr>statuses := sts\<rparr>) w1))
     \<and> length (submitted (new_events (w\<lparr>statuses := sts\<rparr>) w1)) = (length data + 999) div 1000
     \<and> exit_statuses (new_events (w\<lparr>statuses := sts\<rparr>) w1)
         = pad_statuses sts ((length data + 999) div 1000)"
proof -
  let ?ws = "w\<lparr>statuses := sts\<rparr>" and ?w0 = "w\<lparr>statuses := []\<rparr>"
  let ?path = "qsub_path w command kw"
  have rs: "job_dir_ready ?ws command kw" and r0: "job_dir_ready ?w0 command kw"
    using assms(2) by (simp_all add: statuses_irrelevant)
  from qsub_remote_scripts [OF assms(1) rs assms(3)] obtain w1 cs where
    q1: "qsub ?ws command data kw = Inr w1" and
    cs: "merge_last (pbs_array_data_chunks (shuffled w data)) = Inr cs" and
    sub1: "submitted (new_events ?ws w1) =
         map (\<lambda>(i, c). make_script w kw command ?path i c) (enumerate 0 cs)" and
    sc1: "shell_cmds (new_events ?ws w1) =
         map (\<lambda>(i, c). Qsub (make_script w kw command ?path i c)) (enumerate 0 cs)" and
    es1: "exit_statuses (new_events ?ws w1) = pad_statuses sts (length cs)"
    unfolding statuses_irrelevant by blast
  from qsub_remote_scripts [OF assms(1) r0 assms(3)] obtain w0 cs0 where
    q0: "qsub ?w0 command data kw = Inr w0" and
    cs0: "merge_last (pbs_array_data_chunks (shuffled w data)) = Inr cs0" and
    sc0: "shell_cmds (new_events ?w0 w0) =
         map (\<lambda>(i, c). Qsub (make_script w kw command ?path i c)) (enumerate 0 cs0)"
    unfolding statuses_irrelevant by blast
  from cs cs0 have same: "cs0 = cs" by simp
  have len: "length cs = (length data + 999) div 1000"
    using final_chunks_length [OF cs] by (simp add: length_shuffled)
  have a: "shell_cmds (new_events ?ws w1) = shell_cmds (new_events ?w0 w0)"
    by (simp only: sc1 sc0 same)
  have b: "shell_cmds (new_events ?ws w1) = map Qsub (submitted (new_events ?ws w1))"
    unfolding sub1 sc1 by (simp add: case_prod_unfold comp_def)
  have c: "length (submitted (new_events ?ws w1)) = (length data + 999) div 1000"
    unfolding sub1 by (simp add: len)
  have d: "exit_statuses (new_events ?ws w1) = pad_statuses sts ((length data + 999) div 1000)"
    by (simp only: es1 len)
  show ?thesis
    by (intro exI [of _ w1] exI [of _ w0] conjI) (rule q1 q0 a b c d)+
qed

theorem scheduler_status_ignored_witness:
  "\<not> is_local no_kwargs \<and> job_dir_ready posix_world ''echo'' no_kwargs \<and> 2 \<le> length two_tuples
   \<and> (\<exists>w1 w0. qsub (posix_world\<lparr>statuses := [127]\<rparr>) ''echo'' two_tuples no_kwargs = Inr w1
        \<and> qsub (posix_world\<lparr>statuses := []\<rparr>) ''echo'' two_tuples no_kwargs = Inr w0
        \<and> shell_cmds (new_events (posix_world\<lparr>statuses := [127]\<rparr>) w1)
            = shell_cmds (new_events (posix_world\<lparr>statuses := []\<rparr>) w0)
        \<and> length (submitted (new_events (posix_world\<lparr>statuses := [127]\<rparr>) w1)) = 1
        \<and> exit_statuses (new_events (posix_world\<lparr>statuses := [127]\<rparr>) w1) = [127])"
proof -
  have h1: "\<not> is_local no_kwargs" by (simp add: is_local_def no_kwargs_def)
  have h2: "job_dir_ready posix_world ''echo'' no_kwargs"
    by (simp add: job_dir_ready_def posix_world_def no_kwargs_def)
  have h3: "2 \<le> length two_tuples" by (simp add: two_tuples_def)
  have n: "(length two_tuples + 999) div 1000 = 1" by (simp add: two_tuples_def)
  from scheduler_status_ignored [OF h1 h2 h3, of "[127]"] obtain w1 w0 where
    q1: "qsub (posix_world\<lparr>statuses := [127]\<rparr>) ''echo'' two_tuples no_kwargs = Inr w1" and
    q0: "qsub (posix_world\<lparr>statuses := []\<rparr>) ''echo'' two_tuples no_kwargs = Inr w0" and
    a: "shell_cmds (new_events (posix_world\<lparr>statuses := [127]\<rparr>) w1)
            = shell_cmds (new_events (posix_world\<lparr>statuses := []\<rparr>) w0)" and
    c: "length (submitted (new_events (posix_world\<lparr>statuses := [127]\<rparr>) w1))
            = (length two_tuples + 999) div 1000" and
    d: "exit_statuses (new_events (posix_world\<lparr>statuses := [127]\<rparr>) w1)
            = pad_statuses [127] ((length two_tuples + 999) div 1000)"
    by blast
  from c have c': "length (submitted (new_events (posix_world\<lparr>statuses := [127]\<rparr>) w1)) = 1"
    by (simp only: n)
  from d have d': "exit_statuses (new_events (posix_world\<lparr>statuses := [127]\<rparr>) w1) = [127]"
    by (simp add: n)
  have inner: "\<exists>w1 w0. qsub (posix_world\<lparr>statuses := [127]\<rparr>) ''echo'' two_tuples no_kwargs = Inr w1
        \<and> qsub (posix_world\<lparr>statuses := []\<rparr>) ''echo'' two_tuples no_kwargs = Inr w0
        \<and> shell_cmds (new_events (posix_world\<lparr>statuses := [127]\<rparr>) w1)
            = shell_cmds (new_events (posix_world\<lparr>statuses := []\<rparr>) w0)
        \<and> length (submitted (new_events (posix_world\<lparr>statuses := [127]\<rparr>) w1)) = 1
        \<and> exit_statuses (new_events (posix_world\<lparr>statuses := [127]\<rparr>) w1) = [127]"
    by (rule exI [of _ w1], rule exI [of _ w0], intro conjI) (rule q1 q0 a c' d')+
  show ?thesis
    by (intro conjI) (rule h1 h2 h3 inner)+
qed


subsection \<open>Words, quotes and here-documents\<close>

lemma plain_char_cases:
  assumes "plain_char c"
  shows "\<not> blank c" and "c \<noteq> CHR 0x0A" and "c \<noteq> CHR 0x22" and "c \<noteq> CHR 0x27"
    and "\<not> is_ifs c" and "c \<noteq> CHR '' ''"
    and "c \<noteq> CHR ''$''" and "c \<noteq> CHR 0x60" and "c \<noteq> CHR 0x5C" and "c \<noteq> CHR 0x00"
    and "c \<noteq> CHR 0x09" and "c \<noteq> CHR 0x0D"
  using assms by (auto simp: plain_char_def blank_def is_ifs_def)

lemma plain_char_ascii:
  assumes "plain_char c"
  shows "(of_char c :: nat) < 128" and "\<not> unprintable c"
  using assms by (auto simp: plain_char_def unprintable_def Let_def)

lemma space_facts:
  "blank (CHR '' '')" "is_ifs (CHR '' '')" "\<not> plain_char (CHR '' '')"
  "(of_char (CHR '' '') :: nat) < 128" "\<not> unprintable (CHR '' '')"
  by (simp_all add: blank_def is_ifs_def plain_char_def unprintable_def)


lemma safe_text_Cons: "safe_text (c # t) = ((plain_char c \<or> c = CHR '' '') \<and> safe_text t)"
  by (simp add: safe_text_def)

lemma safe_text_append: "safe_text (a @ b) = (safe_text a \<and> safe_text b)"
  by (simp add: safe_text_def)

lemma lex_words_space:
  assumes "safe_text t" and "opened = (cur \<noteq> [])"
  shows "lex Plain cur opened argv cmds (t @ CHR '' '' # rest)
         = lex Plain [] False (argv @ bash_split cur t) cmds rest"
  using assms
proof (induction t arbitrary: cur opened argv)
  case Nil
  then show ?case by (simp add: space_facts push_word_def)
next
  case (Cons c t)
  show ?case
  proof (cases "c = CHR '' ''")
    case True
    have "lex Plain [] False (push_word cur opened argv) cmds (t @ CHR '' '' # rest)
          = lex Plain [] False (push_word cur opened argv @ bash_split [] t) cmds rest"
      using Cons.prems by (intro Cons.IH) (simp_all add: safe_text_Cons)
    with True Cons.prems show ?thesis by (simp add: space_facts push_word_def)
  next
    case False
    with Cons.prems have p: "plain_char c" by (simp add: safe_text_Cons)
    have "lex Plain (cur @ [c]) True argv cmds (t @ CHR '' '' # rest)
          = lex Plain [] False (argv @ bash_split (cur @ [c]) t) cmds rest"
      using Cons.prems by (intro Cons.IH) (simp_all add: safe_text_Cons)
    with p show ?thesis by (simp add: plain_char_cases)
  qed
qed

lemma lex_words_newline:
  assumes "safe_text t" and "opened = (cur \<noteq> [])"
  shows "lex Plain cur opened argv cmds (t @ CHR 0x0A # rest)
         = (if argv @ bash_split cur t = [] then lex Plain [] False [] cmds rest
            else if List.member reserved_words (hd (argv @ bash_split cur t)) then Beyond_model
            else lex Plain [] False [] (cmds @ [argv @ bash_split cur t]) rest)"
  using assms
proof (induction t arbitrary: cur opened argv)
  case Nil
  then show ?case by (simp add: blank_def push_word_def Let_def)
next
  case (Cons c t)
  show ?case
  proof (cases "c = CHR '' ''")
    case True
    have ws: "push_word cur opened argv @ bash_split [] t = argv @ bash_split cur (c # t)"
      using True Cons.prems(2) by (simp add: push_word_def space_facts)
    have "lex Plain cur opened argv cmds ((c # t) @ CHR 0x0A # rest)
          = lex Plain [] False (push_word cur opened argv) cmds (t @ CHR 0x0A # rest)"
      using True by (simp add: space_facts)
    also have "\<dots> = (if push_word cur opened argv @ bash_split [] t = [] then lex Plain [] False [] cmds rest
            else if List.member reserved_words (hd (push_word cur opened argv @ bash_split [] t))
              then Beyond_model
            else lex Plain [] False [] (cmds @ [push_word cur opened argv @ bash_split [] t]) rest)"
      using Cons.prems by (intro Cons.IH) (simp_all add: safe_text_Cons)
    finally show ?thesis by (simp only: ws)
  next
    case False
    with Cons.prems have p: "plain_char c" by (simp add: safe_text_Cons)
    have ws: "bash_split (cur @ [c]) t = bash_split cur (c # t)"
      using p by (simp add: plain_char_cases)
    have "lex Plain cur opened argv cmds ((c # t) @ CHR 0x0A # rest)
          = lex Plain (cur @ [c]) True argv cmds (t @ CHR 0x0A # rest)"
      using p by (simp add: plain_char_cases)
    also have "\<dots> = (if argv @ bash_split (cur @ [c]) t = [] then lex Plain [] False [] cmds rest
            else if List.member reserved_words (hd (argv @ bash_split (cur @ [c]) t)) then Beyond_model
            else lex Plain [] False [] (cmds @ [argv @ bash_split (cur @ [c]) t]) rest)"
      using Cons.prems by (intro Cons.IH) (simp_all add: safe_text_Cons)
    finally show ?thesis by (simp only: ws)
  qed
qed

lemma dq_inert_Cons:
  "dq_inert (c # t) = (c \<noteq> CHR 0x22 \<and> c \<noteq> CHR ''$'' \<and> c \<noteq> CHR 0x60 \<and> c \<noteq> CHR 0x5C
                       \<and> c \<noteq> CHR 0x00 \<and> (of_char c :: nat) < 128 \<and> dq_inert t)"
  by (simp add: dq_inert_def)

lemma dq_inert_append: "dq_inert (a @ b) = (dq_inert a \<and> dq_inert b)"
  by (simp add: dq_inert_def)

lemma lex_quoted:
  assumes "dq_inert t"
  shows "lex Dq cur opened argv cmds (t @ CHR 0x22 # rest) = lex Plain (cur @ t) opened argv cmds rest"
  using assms by (induction t arbitrary: cur) (simp_all add: dq_inert_Cons)

lemma safe_char_inert:
  assumes "plain_char c \<or> c = CHR '' ''"
  shows "c \<noteq> CHR 0x22 \<and> c \<noteq> CHR ''$'' \<and> c \<noteq> CHR 0x60 \<and> c \<noteq> CHR 0x5C
         \<and> c \<noteq> CHR 0x00 \<and> (of_char c :: nat) < 128"
  using assms by (elim disjE) (simp_all add: plain_char_cases plain_char_ascii)

lemma safe_text_dq_inert: "safe_text t \<Longrightarrow> dq_inert t"
  by (induction t) (simp_all add: safe_text_Cons dq_inert_Cons safe_char_inert, simp add: dq_inert_def)


lemma one_line_Cons: "one_line (c # t) = (c \<noteq> CHR 0x0A \<and> one_line t)"
  by (auto simp: one_line_def)

lemma one_line_append: "one_line (a @ b) = (one_line a \<and> one_line b)"
  by (auto simp: one_line_def)

lemma safe_text_one_line: "safe_text t \<Longrightarrow> one_line t"
proof (induction t)
  case Nil
  show ?case by (simp add: one_line_def)
next
  case (Cons c t)
  then have "plain_char c \<or> c = CHR '' ''" and "one_line t" by (simp_all add: safe_text_Cons)
  moreover from this(1) have "c \<noteq> CHR 0x0A" by (elim disjE) (simp_all add: plain_char_cases)
  ultimately show ?case by (simp add: one_line_Cons)
qed

lemma split_lines_line:
  "one_line a \<Longrightarrow> split_lines cur (a @ CHR 0x0A # rest) = (cur @ a) # split_lines [] rest"
  by (induction a arbitrary: cur) (simp_all add: one_line_Cons)

lemma split_lines_last: "one_line a \<Longrightarrow> split_lines cur a = [cur @ a]"
  by (induction a arbitrary: cur) (simp_all add: one_line_Cons)

lemma safe_text_indent16: "safe_text indent16"
  by (simp add: safe_text_def indent16_def list_all_iff)

lemma bash_split_leading_space: "bash_split [] (replicate n (CHR '' '') @ t) = bash_split [] t"
  by (induction n) (simp_all add: space_facts)

lemma bash_words_indent16: "bash_words (indent16 @ t) = bash_words t"
  by (simp add: bash_words_def indent16_def bash_split_leading_space)

lemma bash_words_cd: "bash_words (''cd '' @ cd) = ''cd'' # bash_words cd"
proof -
  have "bash_words (''cd'' @ '' '' @ cd) = bash_words ''cd'' @ bash_words cd"
    by (rule bash_words_space)
  moreover have "bash_words ''cd'' = [''cd'']" by (simp add: bash_words_def is_ifs_def)
  ultimately show ?thesis by simp
qed

lemma bash_words_echo: "bash_words ''echo'' = [''echo'']"
  by (simp add: bash_words_def is_ifs_def)

lemma not_reserved: "\<not> List.member reserved_words ''cd''" "\<not> List.member reserved_words ''echo''"
  by (simp_all add: reserved_words_def)

text \<open>The three lines of the local text, read by the shell.\<close>

lemma bash_run_local_body:
  assumes cd: "safe_text cd" and args: "safe_text args" and command: "safe_text command"
    and path: "safe_text path"
    and run: "runnable (bash_words command @ bash_words args @ bash_words path)"
  shows "bash_run ((indent16 @ ''cd '' @ cd) @ CHR 0x0A
                   # (indent16 @ ''echo'') @ CHR '' '' # CHR 0x22
                   # (''pbs_array_args = '' @ args) @ CHR 0x22 # CHR 0x0A
                   # (indent16 @ command_line command args path) @ [CHR 0x0A])
         = Started [''cd'' # bash_words cd, [''echo'', ''pbs_array_args = '' @ args],
                    bash_words command @ bash_words args @ bash_words path]"
proof -
  let ?l1 = "indent16 @ ''cd '' @ cd" and ?e = "indent16 @ ''echo''"
  let ?q = "''pbs_array_args = '' @ args" and ?l3 = "indent16 @ command_line command args path"
  let ?argv = "bash_words command @ bash_words args @ bash_words path"
  have s1: "safe_text ?l1" using cd by (simp add: safe_text_append safe_text_indent16) (simp add: safe_text_def plain_char_def)
  have w1: "bash_split [] ?l1 = ''cd'' # bash_words cd"
    using bash_words_indent16 [of "''cd '' @ cd"] by (simp only: bash_words_def [symmetric] bash_words_cd)
  have se: "safe_text ?e" by (simp add: safe_text_append safe_text_indent16) (simp add: safe_text_def plain_char_def)
  have we: "bash_split [] ?e = [''echo'']"
    using bash_words_indent16 [of "''echo''"] by (simp only: bash_words_def [symmetric] bash_words_echo)
  have iq: "dq_inert ?q"
    using safe_text_dq_inert [OF args] by (simp add: dq_inert_append) (simp add: dq_inert_def)
  have s3: "safe_text ?l3"
    using command args path
    by (simp add: command_line_def safe_text_append safe_text_indent16) (simp add: safe_text_def)
  have w3: "bash_split [] ?l3 = ?argv"
    using bash_words_indent16 [of "command_line command args path"]
    by (simp only: bash_words_def [symmetric] bash_words_command_line)
  from run have ne: "?argv \<noteq> []" and nr: "\<not> List.member reserved_words (hd ?argv)"
    by (simp_all add: runnable_def)
  have f: "False = (([]::string) \<noteq> [])" by simp
  have step1: "\<And>rest. lex Plain [] False [] [] (?l1 @ CHR 0x0A # rest)
        = lex Plain [] False [] [''cd'' # bash_words cd] rest"
  proof -
    fix rest
    have "lex Plain [] False [] [] (?l1 @ CHR 0x0A # rest)
        = (if ''cd'' # bash_words cd = [] then lex Plain [] False [] [] rest
           else if List.member reserved_words (hd (''cd'' # bash_words cd)) then Beyond_model
           else lex Plain [] False [] ([] @ [''cd'' # bash_words cd]) rest)"
      using lex_words_newline [OF s1 f, of "[]" "[]" rest] by (simp only: w1 append_Nil)
    then show "lex Plain [] False [] [] (?l1 @ CHR 0x0A # rest)
        = lex Plain [] False [] [''cd'' # bash_words cd] rest"
      by (simp only: list.simps list.sel not_reserved if_False append_Nil)
  qed
  have step2: "\<And>rest cmds. lex Plain [] False [] cmds (?e @ CHR '' '' # CHR 0x22 # ?q @ CHR 0x22 # CHR 0x0A # rest)
        = lex Plain [] False [] (cmds @ [[''echo'', ?q]]) rest"
  proof -
    fix rest cmds
    have "lex Plain [] False [] cmds (?e @ CHR '' '' # CHR 0x22 # ?q @ CHR 0x22 # CHR 0x0A # rest)
        = lex Plain [] False ([] @ [''echo'']) cmds (CHR 0x22 # ?q @ CHR 0x22 # CHR 0x0A # rest)"
      using lex_words_space [OF se f, of "[]" cmds] by (simp only: we)
    also have "\<dots> = lex Dq [] True [''echo''] cmds (?q @ CHR 0x22 # CHR 0x0A # rest)"
      by (simp add: blank_def)
    also have "\<dots> = lex Plain ([] @ ?q) True [''echo''] cmds (CHR 0x0A # rest)"
      by (rule lex_quoted [OF iq])
    also have "\<dots> = lex Plain [] False [] (cmds @ [[''echo'', ?q]]) rest"
      by (simp add: blank_def push_word_def Let_def reserved_words_def)
    finally show "lex Plain [] False [] cmds (?e @ CHR '' '' # CHR 0x22 # ?q @ CHR 0x22 # CHR 0x0A # rest)
        = lex Plain [] False [] (cmds @ [[''echo'', ?q]]) rest" .
  qed
  have step3: "\<And>cmds. lex Plain [] False [] cmds (?l3 @ [CHR 0x0A]) = Started (cmds @ [?argv])"
  proof -
    fix cmds
    have "lex Plain [] False [] cmds (?l3 @ [CHR 0x0A])
        = (if ?argv = [] then lex Plain [] False [] cmds []
           else if List.member reserved_words (hd ?argv) then Beyond_model
           else lex Plain [] False [] (cmds @ [[] @ ?argv]) [])"
      using lex_words_newline [OF s3 f, of "[]" cmds "[]"] by (simp only: w3 append_Nil)
    then have "lex Plain [] False [] cmds (?l3 @ [CHR 0x0A]) = lex Plain [] False [] (cmds @ [?argv]) []"
      using ne nr by (simp only: if_False append_Nil)
    then show "lex Plain [] False [] cmds (?l3 @ [CHR 0x0A]) = Started (cmds @ [?argv])"
      by (simp add: push_word_def)
  qed
  have "lex Plain [] False [] [] (?l1 @ CHR 0x0A # ?e @ CHR '' '' # CHR 0x22 # ?q @ CHR 0x22 # CHR 0x0A
                                    # ?l3 @ [CHR 0x0A])
        = lex Plain [] False [] [''cd'' # bash_words cd]
            (?e @ CHR '' '' # CHR 0x22 # ?q @ CHR 0x22 # CHR 0x0A # ?l3 @ [CHR 0x0A])"
    by (rule step1)
  also have "\<dots> = lex Plain [] False [] ([''cd'' # bash_words cd] @ [[''echo'', ?q]]) (?l3 @ [CHR 0x0A])"
    by (rule step2)
  also have "\<dots> = Started (([''cd'' # bash_words cd] @ [[''echo'', ?q]]) @ [?argv])"
    by (rule step3)
  finally show ?thesis
    unfolding bash_run_def by (simp only: append_Cons append_Nil)
qed


lemma indented_not_END: "indent16 @ x \<noteq> ''END''"
proof
  assume "indent16 @ x = ''END''"
  then have "length (indent16 @ x) = length ''END''" by (rule arg_cong)
  then show False by (simp add: indent16_def)
qed

lemma one_line_indent16: "one_line indent16"
  by (rule safe_text_one_line) (rule safe_text_indent16)

lemma sh_run_local_script:
  assumes cd: "safe_text cd" and args: "safe_text args" and command: "safe_text command"
    and path: "safe_text path"
    and run: "runnable (bash_words command @ bash_words args @ bash_words path)"
  shows "sh_run (local_script cd args command path)
         = Started [''cd'' # bash_words cd, [''echo'', ''pbs_array_args = '' @ args],
                    bash_words command @ bash_words args @ bash_words path]"
proof -
  let ?hdr = "''bash <<'' @ [CHR 0x27] @ ''END'' @ [CHR 0x27]"
  let ?l1 = "indent16 @ ''cd '' @ cd"
  let ?l2 = "indent16 @ ''echo '' @ [CHR 0x22] @ ''pbs_array_args = '' @ args @ [CHR 0x22]"
  let ?l3 = "indent16 @ command_line command args path"
  have shape: "local_script cd args command path
      = ?hdr @ CHR 0x0A # ?l1 @ CHR 0x0A # ?l2 @ CHR 0x0A # ?l3 @ CHR 0x0A # ''END''"
    by (simp add: local_script_def)
  have o0: "one_line ?hdr" by (simp add: one_line_def)
  have o1: "one_line ?l1"
    using safe_text_one_line [OF cd] by (simp add: one_line_append one_line_indent16) (simp add: one_line_def)
  have o2: "one_line ?l2"
    using safe_text_one_line [OF args] by (simp add: one_line_append one_line_indent16) (simp add: one_line_def)
  have o3: "one_line ?l3"
    using safe_text_one_line [OF command] safe_text_one_line [OF args] safe_text_one_line [OF path]
    by (simp add: command_line_def one_line_append one_line_indent16) (simp add: one_line_def)
  have o4: "one_line ''END''" by (simp add: one_line_def)
  have lines: "split_lines [] (local_script cd args command path) = [?hdr, ?l1, ?l2, ?l3, ''END'']"
    unfolding shape
    by (simp only: split_lines_line [OF o0] split_lines_line [OF o1] split_lines_line [OF o2]
        split_lines_line [OF o3] split_lines_last [OF o4] append_Nil)
  have ne: "?l1 \<noteq> ''END''" "?l2 \<noteq> ''END''" "?l3 \<noteq> ''END''"
    by (rule indented_not_END)+
  have body: "concat (map (\<lambda>l. l @ [CHR 0x0A]) [?l1, ?l2, ?l3])
      = (indent16 @ ''cd '' @ cd) @ CHR 0x0A
        # (indent16 @ ''echo'') @ CHR '' '' # CHR 0x22
        # (''pbs_array_args = '' @ args) @ CHR 0x22 # CHR 0x0A
        # (indent16 @ command_line command args path) @ [CHR 0x0A]"
    by simp
  have "sh_run (local_script cd args command path)
      = bash_run (concat (map (\<lambda>l. l @ [CHR 0x0A]) [?l1, ?l2, ?l3]))"
    unfolding sh_run_def lines using ne by simp
  then show ?thesis
    by (simp only: body bash_run_local_body [OF assms])
qed

subsection \<open>The literal of a chunk of safe values\<close>

lemma digits_plain: "list_all (\<lambda>d. plain_char (digit_char d)) [0..<10]"
  by code_simp

lemma digit_plain: "d < 10 \<Longrightarrow> plain_char (digit_char d)"
proof -
  assume "d < 10"
  then have "d \<in> set [0..<10]" by simp
  with digits_plain show ?thesis unfolding list_all_iff by blast
qed

lemma safe_str_nat: "safe_text (str_nat n)"
proof (induction n rule: str_nat.induct)
  case (1 n)
  show ?case
  proof (cases "n < 10")
    case True
    then show ?thesis by (subst str_nat.simps) (simp add: safe_text_def digit_plain)
  next
    case False
    with 1 have "safe_text (str_nat (n div 10))" by simp
    moreover have "plain_char (digit_char (n mod 10))" by (rule digit_plain) simp
    ultimately show ?thesis using False
      by (subst str_nat.simps) (simp add: safe_text_append, simp add: safe_text_def)
  qed
qed

lemma safe_str_int: "safe_text (str_int i)"
  by (simp add: str_int_def safe_text_Cons safe_str_nat) (simp add: plain_char_def)

lemma safe_py_str: "safe_value v \<Longrightarrow> safe_text (py_str v)"
  by (cases v) (simp_all add: safe_str_int)

lemma safe_join_sp: "list_all safe_text ss \<Longrightarrow> safe_text (join_sp ss)"
  by (induction ss rule: join_sp.induct) (simp_all add: safe_text_append, simp_all add: safe_text_def)

lemma safe_str_args: "list_all safe_value t \<Longrightarrow> safe_text (str_args t)"
  unfolding str_args_def by (rule safe_join_sp) (simp add: list_all_iff safe_py_str)

lemma repr_char_safe:
  assumes "plain_char c \<or> c = CHR '' ''"
  shows "repr_char (CHR 0x27) c = [c]"
  using assms
  by (elim disjE) (simp_all add: repr_char_def plain_char_cases plain_char_ascii space_facts)

lemma repr_chars_safe: "safe_text s \<Longrightarrow> concat (map (repr_char (CHR 0x27)) s) = s"
  by (induction s) (simp_all add: safe_text_Cons repr_char_safe)

lemma safe_text_no_quote: "safe_text s \<Longrightarrow> \<not> List.member s (CHR 0x27)"
proof (induction s)
  case Nil
  show ?case by simp
next
  case (Cons c s)
  then have "plain_char c \<or> c = CHR '' ''" and "\<not> List.member s (CHR 0x27)"
    by (simp_all add: safe_text_Cons)
  moreover from this(1) have "c \<noteq> CHR 0x27" by (elim disjE) (simp_all add: plain_char_cases)
  ultimately show ?case by auto
qed

lemma repr_str_safe: "safe_text s \<Longrightarrow> repr_str s = CHR 0x27 # s @ [CHR 0x27]"
  using safe_text_no_quote [of s] by (simp add: repr_str_def repr_chars_safe Let_def)

lemma dq_inert_Nil: "dq_inert []"
  by (simp add: dq_inert_def)

lemma dq_inert_repr: "safe_value v \<Longrightarrow> dq_inert (py_repr v)"
proof (cases v)
  case (PStr s)
  assume "safe_value v"
  with PStr have s: "safe_text s" by simp
  then have "dq_inert s" by (rule safe_text_dq_inert)
  then show ?thesis
    by (simp add: PStr repr_str_safe [OF s] dq_inert_Cons dq_inert_append dq_inert_Nil)
next
  case (PInt i)
  then show ?thesis by (simp add: safe_text_dq_inert safe_str_int)
qed

lemma dq_inert_join_comma: "list_all dq_inert ss \<Longrightarrow> dq_inert (join_comma ss)"
  by (induction ss rule: join_comma.induct) (simp_all add: dq_inert_append, simp_all add: dq_inert_def)

lemma dq_inert_repr_tuple: "list_all safe_value t \<Longrightarrow> dq_inert (repr_tuple t)"
proof -
  assume t: "list_all safe_value t"
  then have all: "list_all dq_inert (map py_repr t)" by (simp add: list_all_iff dq_inert_repr)
  show ?thesis
  proof (cases "\<exists>v. t = [v]")
    case True
    then obtain v where v: "t = [v]" by blast
    with t have "dq_inert (py_repr v)" by (simp add: dq_inert_repr)
    then show ?thesis by (simp add: repr_tuple_def v dq_inert_append dq_inert_Cons) (simp add: dq_inert_def)
  next
    case False
    have "repr_tuple t = ''('' @ join_comma (map py_repr t) @ '')''"
    proof (cases t)
      case Nil
      then show ?thesis by (simp add: repr_tuple_def)
    next
      case (Cons a l)
      with False obtain b l' where "l = b # l'" by (cases l) auto
      with Cons show ?thesis by (simp add: repr_tuple_def)
    qed
    then show ?thesis
      using dq_inert_join_comma [OF all] by (simp add: dq_inert_append dq_inert_Cons) (simp add: dq_inert_def)
  qed
qed

lemma dq_inert_repr_chunk: "list_all (list_all safe_value) c \<Longrightarrow> dq_inert (repr_chunk c)"
proof -
  assume "list_all (list_all safe_value) c"
  then have "list_all dq_inert (map repr_tuple c)" by (simp add: list_all_iff dq_inert_repr_tuple)
  then have "dq_inert (join_comma (map repr_tuple c))" by (rule dq_inert_join_comma)
  then show ?thesis by (simp add: repr_chunk_def dq_inert_append dq_inert_Cons) (simp add: dq_inert_def)
qed

subsection \<open>Scripts on safe inputs\<close>

lemma script_texts_make_script:
  "script_texts (make_script w kw command path i c) = script_texts (make_script w kw command path 0 [])"
  by (simp add: script_texts_def make_script_def)

lemma workdir_make_script:
  "workdir (make_script w kw command path i c)
   = (case kw_cd kw of None \<Rightarrow> ''$PBS_O_WORKDIR'' | Some d \<Rightarrow> d)"
  by (simp add: make_script_def)

lemma start_command_runnable:
  "runnable ws \<Longrightarrow> start_command (ws @ xs) = Started [ws @ xs]"
  by (cases ws) (simp_all add: runnable_def start_command_def)

lemma python_prints_in_range:
  assumes "base \<le> j" and "j < base + int (length c)"
  shows "python_prints c base j = Inr (str_args (c ! nat (j - base)))"
  using assms by (simp add: python_prints_def py_get_def)

text \<open>The script of a chunk of safe values, run with an index of its range.\<close>

lemma script_run_safe:
  assumes command: "safe_text command" and run: "runnable (bash_words command)"
    and path: "safe_text path"
    and script: "safe_script w command kw" and p: "path = qsub_path w command kw"
    and c: "list_all (list_all safe_value) c"
    and lo: "1000 * int i \<le> j" and hi: "j < 1000 * int i + int (length c)"
  shows "script_run (make_script w kw command path i c) j
         = Started [bash_words (command_line command (str_args (c ! nat (j - 1000 * int i))) path)]"
proof -
  let ?s = "make_script w kw command path i c"
  let ?t = "c ! nat (j - 1000 * int i)"
  have "script_texts ?s = script_texts (make_script w kw command path 0 [])"
    by (rule script_texts_make_script)
  with script p have h: "list_all one_line (script_texts ?s)"
    by (simp add: safe_script_def)
  from script have wd: "workdir ?s = ''$PBS_O_WORKDIR'' \<or> safe_text (workdir ?s)"
    by (cases "kw_cd kw") (simp_all add: safe_script_def workdir_make_script)
  from c have lit: "dq_inert (repr_chunk (chunk_data ?s))"
    by (simp add: make_script_fields dq_inert_repr_chunk)
  have pr: "python_prints (chunk_data ?s) (base_offset ?s) j = Inr (str_args ?t)"
    using lo hi by (simp add: make_script_fields python_prints_in_range)
  from lo hi have "nat (j - 1000 * int i) < length c" by simp
  then have "?t \<in> set c" by simp
  with c have "list_all safe_value ?t" by (simp add: list_all_iff)
  then have out: "safe_text (str_args ?t)" by (rule safe_str_args)
  have "script_run ?s j
      = start_command (bash_words command @ bash_words (str_args ?t) @ bash_words path)"
    using h lit wd command path out
    by (simp add: script_run_def pr) (simp add: make_script_fields)
  also have "\<dots> = Started [bash_words command @ bash_words (str_args ?t) @ bash_words path]"
    using run by (rule start_command_runnable)
  finally show ?thesis by (simp only: bash_words_command_line)
qed

lemma local_outcomes_append: "local_outcomes (xs @ ys) = local_outcomes xs @ local_outcomes ys"
  by (induction xs rule: local_outcomes.induct) simp_all

lemma local_outcomes_Makedirs: "local_outcomes (map Makedirs ds) = []"
  by (induction ds) simp_all

lemma local_outcomes_bash:
  "length sts = length data \<Longrightarrow>
   local_outcomes (map (\<lambda>(t, st). System (Bash (f t)) st) (zip data sts)) = map (\<lambda>t. sh_run (f t)) data"
  by (induction data sts rule: list_induct2') simp_all

lemma script_outcomes_append: "script_outcomes (xs @ ys) j = script_outcomes xs j @ script_outcomes ys j"
  by (induction xs j rule: script_outcomes.induct) simp_all

lemma script_outcomes_submitted: "script_outcomes es j = map (\<lambda>s. script_run s j) (submitted es)"
  by (induction es j rule: script_outcomes.induct) simp_all

lemma runnable_append: "runnable ws \<Longrightarrow> runnable (ws @ xs)"
  by (cases ws) (simp_all add: runnable_def)

lemma qsub_local_outcomes:
  assumes q: "qsub w command data kw = Inr w'" and loc: "is_local kw"
  shows "local_outcomes (new_events w w')
         = map (\<lambda>t. sh_run (local_script (local_cd kw) (str_args t) command (qsub_path w command kw))) data"
proof -
  have ready: "job_dir_ready w command kw" using q by (rule qsub_success(1))
  from qsub_local_run [OF loc ready, of data] q have
    ev: "new_events w w' =
         map Makedirs (dirs_to_make w (qsub_path w command kw))
         @ map (\<lambda>(t, st). System (Bash (local_script (local_cd kw) (str_args t) command
                                          (qsub_path w command kw))) st)
               (zip data (next_statuses w (length data)))"
    by auto
  have len: "length (next_statuses w (length data)) = length data"
    by (simp add: next_statuses_def length_pad_statuses)
  show ?thesis
    unfolding ev
    by (simp add: local_outcomes_append local_outcomes_Makedirs local_outcomes_bash [OF len])
qed

lemma local_outcomes_safe:
  assumes q: "qsub w command data kw = Inr w'" and loc: "is_local kw"
    and safe: "safe_call w command kw data" and cd: "safe_text (local_cd kw)"
  shows "local_outcomes (new_events w w')
         = map (\<lambda>t. Started [''cd'' # bash_words (local_cd kw),
                               [''echo'', ''pbs_array_args = '' @ str_args t],
                               bash_words (command_line command (str_args t) (qsub_path w command kw))])
               data"
proof -
  from safe have command: "safe_text command" and run: "runnable (bash_words command)"
    and path: "safe_text (qsub_path w command kw)" and vals: "list_all (list_all safe_value) data"
    by (simp_all add: safe_call_def)
  have "\<And>t. t \<in> set data \<Longrightarrow>
      sh_run (local_script (local_cd kw) (str_args t) command (qsub_path w command kw))
      = Started [''cd'' # bash_words (local_cd kw), [''echo'', ''pbs_array_args = '' @ str_args t],
                 bash_words (command_line command (str_args t) (qsub_path w command kw))]"
  proof -
    fix t assume "t \<in> set data"
    with vals have "list_all safe_value t" by (simp add: list_all_iff)
    then have args: "safe_text (str_args t)" by (rule safe_str_args)
    have r: "runnable (bash_words command @ bash_words (str_args t) @ bash_words (qsub_path w command kw))"
      using run by (rule runnable_append)
    show "sh_run (local_script (local_cd kw) (str_args t) command (qsub_path w command kw))
      = Started [''cd'' # bash_words (local_cd kw), [''echo'', ''pbs_array_args = '' @ str_args t],
                 bash_words (command_line command (str_args t) (qsub_path w command kw))]"
      by (simp only: sh_run_local_script [OF cd args command path r] bash_words_command_line)
  qed
  then show ?thesis
    unfolding qsub_local_outcomes [OF q loc] by (intro map_cong refl)
qed

lemma qsub_remote_result:
  assumes q: "qsub w command data kw = Inr w'" and rem: "\<not> is_local kw" and n: "2 \<le> length data"
  shows "\<exists>cs. merge_last (pbs_array_data_chunks (shuffled w data)) = Inr cs
     \<and> submitted (new_events w w') =
         map (\<lambda>(i, c). make_script w kw command (qsub_path w command kw) i c) (enumerate 0 cs)"
proof -
  have ready: "job_dir_ready w command kw" using q by (rule qsub_success(1))
  from qsub_remote_scripts [OF rem ready n] q show ?thesis by auto
qed

lemma chunk_members:
  assumes "merge_last (pbs_array_data_chunks (shuffled w data)) = Inr cs" and "c \<in> set cs"
  shows "set c \<subseteq> set data"
proof -
  have "concat cs = shuffled w data" using assms(1) by (rule final_chunks_concat)
  then have "set (concat cs) = set data" using mset_shuffled [of w data] by (metis set_mset_mset)
  with assms(2) show ?thesis by auto
qed

text \<open>One submitted script, run with an index of its range.\<close>

lemma remote_lookup:
  assumes q: "qsub w command data kw = Inr w'" and rem: "\<not> is_local kw" and n: "2 \<le> length data"
    and i: "i < length (submitted (new_events w w'))"
    and lo: "array_lo (submitted (new_events w w') ! i) \<le> j"
    and hi: "j \<le> array_hi (submitted (new_events w w') ! i)"
  shows "base_offset (submitted (new_events w w') ! i) = 1000 * int i"
    and "0 \<le> j - 1000 * int i"
    and "j - 1000 * int i < int (length (chunk_data (submitted (new_events w w') ! i)))"
    and "chunk_data (submitted (new_events w w') ! i) ! nat (j - 1000 * int i) \<in> set data"
    and "python_prints (chunk_data (submitted (new_events w w') ! i))
           (base_offset (submitted (new_events w w') ! i)) j
         = Inr (str_args (chunk_data (submitted (new_events w w') ! i) ! nat (j - 1000 * int i)))"
    and "safe_call w command kw data \<Longrightarrow> safe_script w command kw \<Longrightarrow>
         script_run (submitted (new_events w w') ! i) j
         = Started [bash_words (command_line command
              (str_args (chunk_data (submitted (new_events w w') ! i) ! nat (j - 1000 * int i)))
              (qsub_path w command kw))]"
proof -
  let ?path = "qsub_path w command kw"
  let ?ss = "submitted (new_events w w')"
  from qsub_remote_result [OF q rem n] obtain cs where
    cs: "merge_last (pbs_array_data_chunks (shuffled w data)) = Inr cs" and
    sub: "?ss = map (\<lambda>(i, c). make_script w kw command ?path i c) (enumerate 0 cs)"
    by blast
  from i have ic: "i < length cs" unfolding sub by simp
  have nth: "?ss ! i = make_script w kw command ?path i (cs ! i)"
    unfolding sub using ic by (rule script_nth)
  from lo have l: "1000 * int i \<le> j" by (simp add: nth make_script_fields)
  from hi have h: "j < 1000 * int i + int (length (cs ! i))" by (simp add: nth make_script_fields)
  show "base_offset (?ss ! i) = 1000 * int i" by (simp add: nth make_script_fields)
  from l show "0 \<le> j - 1000 * int i" by simp
  from h show "j - 1000 * int i < int (length (chunk_data (?ss ! i)))"
    by (simp add: nth make_script_fields)
  from ic have mem: "cs ! i \<in> set cs" by simp
  from l h have "nat (j - 1000 * int i) < length (cs ! i)" by simp
  then have "cs ! i ! nat (j - 1000 * int i) \<in> set (cs ! i)" by simp
  with chunk_members [OF cs mem] show "chunk_data (?ss ! i) ! nat (j - 1000 * int i) \<in> set data"
    by (auto simp: nth make_script_fields)
  show "python_prints (chunk_data (?ss ! i)) (base_offset (?ss ! i)) j
         = Inr (str_args (chunk_data (?ss ! i) ! nat (j - 1000 * int i)))"
    using python_prints_in_range [OF l h] by (simp add: nth make_script_fields)
  assume safe: "safe_call w command kw data" and script: "safe_script w command kw"
  from safe have command: "safe_text command" and run: "runnable (bash_words command)"
    and path: "safe_text ?path" and vals: "list_all (list_all safe_value) data"
    by (simp_all add: safe_call_def)
  from vals chunk_members [OF cs mem] have c: "list_all (list_all safe_value) (cs ! i)"
    by (auto simp: list_all_iff)
  show "script_run (?ss ! i) j
         = Started [bash_words (command_line command
              (str_args (chunk_data (?ss ! i) ! nat (j - 1000 * int i))) ?path)]"
    using script_run_safe [OF command run path script refl c l h]
    by (simp add: nth make_script_fields)
qed

subsection \<open>What a local run starts\<close>

text \<open>
  C5, as the claim states it, fails for a value with shell syntax in it. The values
  are written into the script as they are: with the tuple \<open>('a"b',)\<close> the double
  quote of the value closes the string of the \<^verbatim>\<open>echo\<close> line, the next one opens a
  string that runs to the quote in the command line, and \<^verbatim>\<open>prog\<close> is never started
  for that tuple: its line has become part of an argument of \<^verbatim>\<open>echo\<close>.
\<close>

theorem quoted_value_swallows_command:
  "local_outcomes (new_events posix_world
      (outcome_world (qsub posix_world ''prog'' quote_tuples local_kwargs)))
   = [Started [[''cd'', ''.''],
               [''echo'', ''pbs_array_args = ab\<newline>                prog ab'', ''prog/'']],
      Started [[''cd'', ''.''], [''echo'', ''pbs_array_args = 7''], [''prog'', ''7'', ''prog/'']]]"
  by code_simp

lemma safe_call_echo:
  "safe_text path \<Longrightarrow> qsub_path w ''echo'' kw = path \<Longrightarrow> safe_call w ''echo'' kw two_tuples"
  by (simp add: safe_call_def two_tuples_def) code_simp

lemma bash_words_a1: "bash_words ''a 1'' = [''a'', ''1'']"
  by code_simp

lemma bash_words_b2: "bash_words ''b 2'' = [''b'', ''2'']"
  by code_simp

lemma bash_words_echo_word: "bash_words ''echo'' = [''echo'']"
  by code_simp

text \<open>
  C5, amended. In local mode one script is run for each tuple, in the order of the
  input; nothing is submitted to the scheduler and no random number is drawn. When
  the command, the values, the path and the working directory are made of plain
  characters and spaces, and the command does not begin with a reserved word, the
  script of a tuple starts \<^verbatim>\<open>cd\<close>, \<^verbatim>\<open>echo\<close>, and then the command, once, on the words
  of the command, the words of the tuple's values and the words of the path. With
  the tuples \<open>("a", 1)\<close> and \<open>("b", 2)\<close> and the command \<^verbatim>\<open>echo\<close> the two runs have the
  arguments \<open>a\<close>, \<open>1\<close> and \<open>b\<close>, \<open>2\<close>, each followed by the words of the path.
\<close>

theorem local_runs_in_order:
  assumes "is_local kw" and "job_dir_ready w command kw"
  shows "\<exists>w'. qsub w command data kw = Inr w'
     \<and> shell_cmds (new_events w w') =
         map (\<lambda>t. Bash (local_script (local_cd kw) (str_args t) command (qsub_path w command kw))) data
     \<and> submitted (new_events w w') = []
     \<and> randoms w' = randoms w
     \<and> (safe_call w command kw data \<and> safe_text (local_cd kw) \<longrightarrow>
          local_outcomes (new_events w w') =
            map (\<lambda>t. Started [''cd'' # bash_words (local_cd kw),
                               [''echo'', ''pbs_array_args = '' @ str_args t],
                               bash_words command @ bash_words (str_args t)
                               @ bash_words (qsub_path w command kw)]) data)
     \<and> (command = ''echo'' \<and> data = two_tuples
          \<and> safe_text (qsub_path w ''echo'' kw) \<and> safe_text (local_cd kw) \<longrightarrow>
          local_outcomes (new_events w w') =
            [Started [''cd'' # bash_words (local_cd kw), [''echo'', ''pbs_array_args = a 1''],
                      [''echo'', ''a'', ''1''] @ bash_words (qsub_path w ''echo'' kw)],
             Started [''cd'' # bash_words (local_cd kw), [''echo'', ''pbs_array_args = b 2''],
                      [''echo'', ''b'', ''2''] @ bash_words (qsub_path w ''echo'' kw)]])"
proof -
  from qsub_local_cmds [OF assms, of data] obtain w' where
    q: "qsub w command data kw = Inr w'" and
    c: "shell_cmds (new_events w w') =
         map (\<lambda>t. Bash (local_script (local_cd kw) (str_args t) command (qsub_path w command kw))) data" and
    s: "submitted (new_events w w') = []" and
    r: "randoms w' = randoms w"
    by blast
  have o: "safe_call w command kw data \<and> safe_text (local_cd kw) \<longrightarrow>
          local_outcomes (new_events w w') =
            map (\<lambda>t. Started [''cd'' # bash_words (local_cd kw),
                               [''echo'', ''pbs_array_args = '' @ str_args t],
                               bash_words command @ bash_words (str_args t)
                               @ bash_words (qsub_path w command kw)]) data"
  proof
    assume a: "safe_call w command kw data \<and> safe_text (local_cd kw)"
    then have safe: "safe_call w command kw data" and cd: "safe_text (local_cd kw)" by simp_all
    show "local_outcomes (new_events w w') =
            map (\<lambda>t. Started [''cd'' # bash_words (local_cd kw),
                               [''echo'', ''pbs_array_args = '' @ str_args t],
                               bash_words command @ bash_words (str_args t)
                               @ bash_words (qsub_path w command kw)]) data"
      by (simp only: local_outcomes_safe [OF q assms(1) safe cd] bash_words_command_line)
  qed
  have e: "command = ''echo'' \<and> data = two_tuples
          \<and> safe_text (qsub_path w ''echo'' kw) \<and> safe_text (local_cd kw) \<longrightarrow>
          local_outcomes (new_events w w') =
            [Started [''cd'' # bash_words (local_cd kw), [''echo'', ''pbs_array_args = a 1''],
                      [''echo'', ''a'', ''1''] @ bash_words (qsub_path w ''echo'' kw)],
             Started [''cd'' # bash_words (local_cd kw), [''echo'', ''pbs_array_args = b 2''],
                      [''echo'', ''b'', ''2''] @ bash_words (qsub_path w ''echo'' kw)]]"
  proof
    assume a: "command = ''echo'' \<and> data = two_tuples
          \<and> safe_text (qsub_path w ''echo'' kw) \<and> safe_text (local_cd kw)"
    then have ce: "command = ''echo''" and d: "data = two_tuples"
      and p: "safe_text (qsub_path w ''echo'' kw)" and cd: "safe_text (local_cd kw)"
      by simp_all
    have safe: "safe_call w command kw data"
      unfolding ce d using p refl by (rule safe_call_echo)
    have "local_outcomes (new_events w w') =
            map (\<lambda>t. Started [''cd'' # bash_words (local_cd kw),
                               [''echo'', ''pbs_array_args = '' @ str_args t],
                               bash_words (command_line command (str_args t) (qsub_path w command kw))])
               data"
      using q assms(1) safe cd by (rule local_outcomes_safe)
    then show "local_outcomes (new_events w w') =
            [Started [''cd'' # bash_words (local_cd kw), [''echo'', ''pbs_array_args = a 1''],
                      [''echo'', ''a'', ''1''] @ bash_words (qsub_path w ''echo'' kw)],
             Started [''cd'' # bash_words (local_cd kw), [''echo'', ''pbs_array_args = b 2''],
                      [''echo'', ''b'', ''2''] @ bash_words (qsub_path w ''echo'' kw)]]"
      unfolding ce d
      by (simp add: two_tuples_def str_args_a1 str_args_b2 bash_words_command_line
          bash_words_a1 bash_words_b2 bash_words_echo_word)
  qed
  show ?thesis
    by (rule exI [of _ w'], intro conjI) (rule q c s r o e)+
qed

theorem local_runs_in_order_witness:
  "is_local local_kwargs \<and> job_dir_ready posix_world ''echo'' local_kwargs
   \<and> safe_text (qsub_path posix_world ''echo'' local_kwargs) \<and> safe_text (local_cd local_kwargs)
   \<and> (\<exists>w'. qsub posix_world ''echo'' two_tuples local_kwargs = Inr w'
        \<and> shell_cmds (new_events posix_world w') =
            [Bash (local_script ''.'' ''a 1'' ''echo'' ''echo/''),
             Bash (local_script ''.'' ''b 2'' ''echo'' ''echo/'')]
        \<and> local_outcomes (new_events posix_world w') =
            [Started [[''cd'', ''.''], [''echo'', ''pbs_array_args = a 1''],
                      [''echo'', ''a'', ''1'', ''echo/'']],
             Started [[''cd'', ''.''], [''echo'', ''pbs_array_args = b 2''],
                      [''echo'', ''b'', ''2'', ''echo/'']]])"
proof -
  have h1: "is_local local_kwargs" by (simp add: is_local_def local_kwargs_def)
  have h2: "job_dir_ready posix_world ''echo'' local_kwargs"
    by (simp add: job_dir_ready_def posix_world_def no_kwargs_def local_kwargs_def)
  have cd: "local_cd local_kwargs = ''.''"
    by (simp add: local_cd_def local_kwargs_def no_kwargs_def)
  have p: "qsub_path posix_world ''echo'' local_kwargs = ''echo/''"
    unfolding local_kwargs_def by (rule qsub_path_echo)
  have h3: "safe_text (qsub_path posix_world ''echo'' local_kwargs)"
    unfolding p by code_simp
  have h4: "safe_text (local_cd local_kwargs)"
    unfolding cd by code_simp
  have w1: "bash_words ''.'' = [''.'']" by code_simp
  have w2: "bash_words ''echo/'' = [''echo/'']" by code_simp
  from local_runs_in_order [OF h1 h2, of two_tuples] obtain w' where
    q: "qsub posix_world ''echo'' two_tuples local_kwargs = Inr w'" and
    c: "shell_cmds (new_events posix_world w') =
         map (\<lambda>t. Bash (local_script (local_cd local_kwargs) (str_args t) ''echo''
                           (qsub_path posix_world ''echo'' local_kwargs))) two_tuples" and
    e: "''echo'' = ''echo'' \<and> two_tuples = two_tuples
          \<and> safe_text (qsub_path posix_world ''echo'' local_kwargs)
          \<and> safe_text (local_cd local_kwargs) \<longrightarrow>
          local_outcomes (new_events posix_world w') =
            [Started [''cd'' # bash_words (local_cd local_kwargs),
                      [''echo'', ''pbs_array_args = a 1''],
                      [''echo'', ''a'', ''1''] @ bash_words (qsub_path posix_world ''echo'' local_kwargs)],
             Started [''cd'' # bash_words (local_cd local_kwargs),
                      [''echo'', ''pbs_array_args = b 2''],
                      [''echo'', ''b'', ''2''] @ bash_words (qsub_path posix_world ''echo'' local_kwargs)]]"
    by blast
  from c have c': "shell_cmds (new_events posix_world w') =
            [Bash (local_script ''.'' ''a 1'' ''echo'' ''echo/''),
             Bash (local_script ''.'' ''b 2'' ''echo'' ''echo/'')]"
    by (simp add: cd p two_tuples_def str_args_a1 str_args_b2)
  from e h3 h4 have "local_outcomes (new_events posix_world w') =
            [Started [''cd'' # bash_words (local_cd local_kwargs),
                      [''echo'', ''pbs_array_args = a 1''],
                      [''echo'', ''a'', ''1''] @ bash_words (qsub_path posix_world ''echo'' local_kwargs)],
             Started [''cd'' # bash_words (local_cd local_kwargs),
                      [''echo'', ''pbs_array_args = b 2''],
                      [''echo'', ''b'', ''2''] @ bash_words (qsub_path posix_world ''echo'' local_kwargs)]]"
    by blast
  then have o: "local_outcomes (new_events posix_world w') =
            [Started [[''cd'', ''.''], [''echo'', ''pbs_array_args = a 1''],
                      [''echo'', ''a'', ''1'', ''echo/'']],
             Started [[''cd'', ''.''], [''echo'', ''pbs_array_args = b 2''],
                      [''echo'', ''b'', ''2'', ''echo/'']]]"
    by (simp add: cd p w1 w2)
  show ?thesis
    by (intro conjI, (rule h1 h2 h3 h4)+, rule exI [of _ w'], intro conjI) (rule q c' o)+
qed

subsection \<open>What a submitted script starts\<close>






subsection \<open>The separator and the empty path\<close>

text \<open>What every successful call starts, in either mode, when the shell only cuts words.\<close>

lemma qsub_starts:
  assumes q: "qsub w command data kw = Inr w'" and ok: "is_local kw \<or> 2 \<le> length data"
    and safe: "safe_call w command kw data"
  shows "if is_local kw
         then safe_text (local_cd kw) \<longrightarrow>
              local_outcomes (new_events w w') =
                map (\<lambda>t. Started [''cd'' # bash_words (local_cd kw),
                                   [''echo'', ''pbs_array_args = '' @ str_args t],
                                   bash_words command @ bash_words (str_args t)
                                   @ bash_words (qsub_path w command kw)]) data
         else safe_script w command kw \<longrightarrow>
              (\<forall>i < length (submitted (new_events w w')).
                 \<forall>j. array_lo (submitted (new_events w w') ! i) \<le> j
                       \<and> j \<le> array_hi (submitted (new_events w w') ! i) \<longrightarrow>
                   script_run (submitted (new_events w w') ! i) j
                   = Started [bash_words command
                        @ bash_words (str_args (chunk_data (submitted (new_events w w') ! i)
                                                  ! nat (j - 1000 * int i)))
                        @ bash_words (qsub_path w command kw)])"
proof (cases "is_local kw")
  case True
  have "safe_text (local_cd kw) \<longrightarrow>
              local_outcomes (new_events w w') =
                map (\<lambda>t. Started [''cd'' # bash_words (local_cd kw),
                                   [''echo'', ''pbs_array_args = '' @ str_args t],
                                   bash_words command @ bash_words (str_args t)
                                   @ bash_words (qsub_path w command kw)]) data"
  proof
    assume cd: "safe_text (local_cd kw)"
    show "local_outcomes (new_events w w') =
                map (\<lambda>t. Started [''cd'' # bash_words (local_cd kw),
                                   [''echo'', ''pbs_array_args = '' @ str_args t],
                                   bash_words command @ bash_words (str_args t)
                                   @ bash_words (qsub_path w command kw)]) data"
      by (simp only: local_outcomes_safe [OF q True safe cd] bash_words_command_line)
  qed
  with True show ?thesis by simp
next
  case False
  with ok have n: "2 \<le> length data" by simp
  have "safe_script w command kw \<longrightarrow>
              (\<forall>i < length (submitted (new_events w w')).
                 \<forall>j. array_lo (submitted (new_events w w') ! i) \<le> j
                       \<and> j \<le> array_hi (submitted (new_events w w') ! i) \<longrightarrow>
                   script_run (submitted (new_events w w') ! i) j
                   = Started [bash_words command
                        @ bash_words (str_args (chunk_data (submitted (new_events w w') ! i)
                                                  ! nat (j - 1000 * int i)))
                        @ bash_words (qsub_path w command kw)])"
  proof (intro impI allI)
    fix i j
    assume script: "safe_script w command kw"
      and i: "i < length (submitted (new_events w w'))"
      and r: "array_lo (submitted (new_events w w') ! i) \<le> j
                       \<and> j \<le> array_hi (submitted (new_events w w') ! i)"
    from r have lo: "array_lo (submitted (new_events w w') ! i) \<le> j"
      and hi: "j \<le> array_hi (submitted (new_events w w') ! i)" by simp_all
    show "script_run (submitted (new_events w w') ! i) j
                   = Started [bash_words command
                        @ bash_words (str_args (chunk_data (submitted (new_events w w') ! i)
                                                  ! nat (j - 1000 * int i)))
                        @ bash_words (qsub_path w command kw)]"
      using remote_lookup(6) [OF q False n i lo hi safe script]
      by (simp only: bash_words_command_line)
  qed
  with False show ?thesis by simp
qed

text \<open>
  C7, amended. A path that is supplied, is not empty and does not end in the
  separator gets exactly one separator appended; a path that ends in the separator is
  used as it is; the empty path is left empty; and resolving a resolved path changes
  nothing, so a call with the resolved path does what the call did. The resolved path
  is the one the job directory is tested and made with and the one every command
  line and script carries; where the shell only cuts words, its words are the last
  arguments of every command started.
\<close>

theorem path_separator_normalised:
  assumes "kw_path kw = Some p" and "job_dir_ready w command kw"
    and "is_local kw \<or> 2 \<le> length data"
  shows "(p \<noteq> [] \<and> last p \<noteq> os_sep w \<longrightarrow> qsub_path w command kw = p @ [os_sep w])
     \<and> (p \<noteq> [] \<and> last p = os_sep w \<longrightarrow> qsub_path w command kw = p)
     \<and> (p = [] \<longrightarrow> qsub_path w command kw = [])
     \<and> resolve_path (os_sep w) command (Some (qsub_path w command kw)) = qsub_path w command kw
     \<and> qsub w command data (kw\<lparr>kw_path := Some (qsub_path w command kw)\<rparr>) = qsub w command data kw
     \<and> (\<exists>w'. qsub w command data kw = Inr w'
          \<and> made_dirs (new_events w w') = dirs_to_make w (qsub_path w command kw)
          \<and> (if is_local kw
              then shell_cmds (new_events w w') =
                     map (\<lambda>t. Bash (local_script (local_cd kw) (str_args t) command
                                       (qsub_path w command kw))) data
              else submitted (new_events w w') \<noteq> []
                   \<and> list_all (\<lambda>s. script_path s = qsub_path w command kw
                                    \<and> out_dir s = qsub_path w command kw @ ''job''
                                    \<and> err_dir s = qsub_path w command kw @ ''job'')
                        (submitted (new_events w w')))
          \<and> (safe_call w command kw data \<longrightarrow>
               (if is_local kw
                then safe_text (local_cd kw) \<longrightarrow>
                     local_outcomes (new_events w w') =
                       map (\<lambda>t. Started [''cd'' # bash_words (local_cd kw),
                                          [''echo'', ''pbs_array_args = '' @ str_args t],
                                          bash_words command @ bash_words (str_args t)
                                          @ bash_words (qsub_path w command kw)]) data
                else safe_script w command kw \<longrightarrow>
                     (\<forall>i < length (submitted (new_events w w')).
                        \<forall>j. array_lo (submitted (new_events w w') ! i) \<le> j
                              \<and> j \<le> array_hi (submitted (new_events w w') ! i) \<longrightarrow>
                          script_run (submitted (new_events w w') ! i) j
                          = Started [bash_words command
                               @ bash_words (str_args (chunk_data (submitted (new_events w w') ! i)
                                                         ! nat (j - 1000 * int i)))
                               @ bash_words (qsub_path w command kw)]))))"
proof -
  have a: "p \<noteq> [] \<and> last p \<noteq> os_sep w \<longrightarrow> qsub_path w command kw = p @ [os_sep w]"
    by (simp add: qsub_path_def assms(1) resolve_path_supplied)
  have b: "p \<noteq> [] \<and> last p = os_sep w \<longrightarrow> qsub_path w command kw = p"
    by (simp add: qsub_path_def assms(1) resolve_path_def)
  have z: "p = [] \<longrightarrow> qsub_path w command kw = []"
    by (simp add: qsub_path_def assms(1) resolve_path_def)
  have c: "resolve_path (os_sep w) command (Some (qsub_path w command kw)) = qsub_path w command kw"
    by (simp add: qsub_path_def assms(1) resolve_path_idem)
  have d: "qsub w command data (kw\<lparr>kw_path := Some (qsub_path w command kw)\<rparr>) = qsub w command data kw"
    by (rule qsub_resolved_path)
  from qsub_uses_path [OF assms(2) assms(3)] obtain w' where
    q: "qsub w command data kw = Inr w'" and
    md: "made_dirs (new_events w w') = dirs_to_make w (qsub_path w command kw)" and
    u: "if is_local kw
         then shell_cmds (new_events w w') =
                map (\<lambda>t. Bash (local_script (local_cd kw) (str_args t) command (qsub_path w command kw))) data
         else shell_cmds (new_events w w') = map Qsub (submitted (new_events w w'))
              \<and> length (submitted (new_events w w')) = (length data + 999) div 1000
              \<and> list_all (\<lambda>s. script_path s = qsub_path w command kw
                               \<and> out_dir s = qsub_path w command kw @ ''job''
                               \<and> err_dir s = qsub_path w command kw @ ''job''
                               \<and> script_command s = command)
                   (submitted (new_events w w'))"
    by blast
  have e: "if is_local kw
              then shell_cmds (new_events w w') =
                     map (\<lambda>t. Bash (local_script (local_cd kw) (str_args t) command
                                       (qsub_path w command kw))) data
              else submitted (new_events w w') \<noteq> []
                   \<and> list_all (\<lambda>s. script_path s = qsub_path w command kw
                                    \<and> out_dir s = qsub_path w command kw @ ''job''
                                    \<and> err_dir s = qsub_path w command kw @ ''job'')
                        (submitted (new_events w w'))"
  proof (cases "is_local kw")
    case True
    with u show ?thesis by simp
  next
    case False
    with assms(3) have "2 \<le> length data" by simp
    then have "0 < (length data + 999) div 1000" by linarith
    with False u have "submitted (new_events w w') \<noteq> []" by auto
    with False u show ?thesis by (simp add: list_all_iff)
  qed
  have s: "safe_call w command kw data \<longrightarrow>
               (if is_local kw
                then safe_text (local_cd kw) \<longrightarrow>
                     local_outcomes (new_events w w') =
                       map (\<lambda>t. Started [''cd'' # bash_words (local_cd kw),
                                          [''echo'', ''pbs_array_args = '' @ str_args t],
                                          bash_words command @ bash_words (str_args t)
                                          @ bash_words (qsub_path w command kw)]) data
                else safe_script w command kw \<longrightarrow>
                     (\<forall>i < length (submitted (new_events w w')).
                        \<forall>j. array_lo (submitted (new_events w w') ! i) \<le> j
                              \<and> j \<le> array_hi (submitted (new_events w w') ! i) \<longrightarrow>
                          script_run (submitted (new_events w w') ! i) j
                          = Started [bash_words command
                               @ bash_words (str_args (chunk_data (submitted (new_events w w') ! i)
                                                         ! nat (j - 1000 * int i)))
                               @ bash_words (qsub_path w command kw)]))"
    using qsub_starts [OF q assms(3)] by (rule impI)
  show ?thesis
    by (intro conjI, (rule a b z c d)+, rule exI [of _ w'], intro conjI) (rule q md e s)+
qed

theorem path_separator_normalised_witness:
  "kw_path out_kwargs = Some ''out'' \<and> job_dir_ready posix_world ''echo'' out_kwargs
   \<and> (is_local out_kwargs \<or> 2 \<le> length two_tuples)
   \<and> qsub_path posix_world ''echo'' out_kwargs = ''out/''
   \<and> (\<exists>w'. qsub posix_world ''echo'' two_tuples out_kwargs = Inr w'
        \<and> made_dirs (new_events posix_world w') = [''out/job'']
        \<and> local_outcomes (new_events posix_world w') =
            [Started [[''cd'', ''.''], [''echo'', ''pbs_array_args = a 1''],
                      [''echo'', ''a'', ''1'', ''out/'']],
             Started [[''cd'', ''.''], [''echo'', ''pbs_array_args = b 2''],
                      [''echo'', ''b'', ''2'', ''out/'']]])"
proof -
  have h1: "kw_path out_kwargs = Some ''out''" by (simp add: out_kwargs_def)
  have h2: "job_dir_ready posix_world ''echo'' out_kwargs"
    by (simp add: job_dir_ready_def posix_world_def out_kwargs_def resolve_path_def)
  have loc: "is_local out_kwargs" by (simp add: is_local_def out_kwargs_def)
  then have h3: "is_local out_kwargs \<or> 2 \<le> length two_tuples" by simp
  note inst = path_separator_normalised [OF h1 h2 h3]
  have "''out'' \<noteq> [] \<and> last ''out'' \<noteq> os_sep posix_world" by (simp add: posix_world_def)
  with inst have "qsub_path posix_world ''echo'' out_kwargs = ''out'' @ [os_sep posix_world]"
    by blast
  then have p: "qsub_path posix_world ''echo'' out_kwargs = ''out/''" by (simp add: posix_world_def)
  have d: "dirs_to_make posix_world ''out/'' = [''out/job'']"
    by (simp add: dirs_to_make_def os_path_isdir_def posix_world_def)
  have cd: "local_cd out_kwargs = ''.''"
    by (simp add: local_cd_def out_kwargs_def no_kwargs_def)
  have sp: "safe_text ''out/''" by code_simp
  have scd: "safe_text (local_cd out_kwargs)" unfolding cd by code_simp
  have safe: "safe_call posix_world ''echo'' out_kwargs two_tuples"
    using sp p by (rule safe_call_echo)
  have w1: "bash_words ''.'' = [''.'']" by code_simp
  have w2: "bash_words ''out/'' = [''out/'']" by code_simp
  from inst obtain w' where
    q: "qsub posix_world ''echo'' two_tuples out_kwargs = Inr w'" and
    md: "made_dirs (new_events posix_world w') = dirs_to_make posix_world (qsub_path posix_world ''echo'' out_kwargs)" and
    s: "safe_call posix_world ''echo'' out_kwargs two_tuples \<longrightarrow>
               (if is_local out_kwargs
                then safe_text (local_cd out_kwargs) \<longrightarrow>
                     local_outcomes (new_events posix_world w') =
                       map (\<lambda>t. Started [''cd'' # bash_words (local_cd out_kwargs),
                                          [''echo'', ''pbs_array_args = '' @ str_args t],
                                          bash_words ''echo'' @ bash_words (str_args t)
                                          @ bash_words (qsub_path posix_world ''echo'' out_kwargs)])
                           two_tuples
                else safe_script posix_world ''echo'' out_kwargs \<longrightarrow>
                     (\<forall>i < length (submitted (new_events posix_world w')).
                        \<forall>j. array_lo (submitted (new_events posix_world w') ! i) \<le> j
                              \<and> j \<le> array_hi (submitted (new_events posix_world w') ! i) \<longrightarrow>
                          script_run (submitted (new_events posix_world w') ! i) j
                          = Started [bash_words ''echo''
                               @ bash_words (str_args (chunk_data (submitted (new_events posix_world w') ! i)
                                                         ! nat (j - 1000 * int i)))
                               @ bash_words (qsub_path posix_world ''echo'' out_kwargs)]))"
    by blast
  from md have md': "made_dirs (new_events posix_world w') = [''out/job'']" by (simp only: p d)
  from s safe loc scd have "local_outcomes (new_events posix_world w') =
                       map (\<lambda>t. Started [''cd'' # bash_words (local_cd out_kwargs),
                                          [''echo'', ''pbs_array_args = '' @ str_args t],
                                          bash_words ''echo'' @ bash_words (str_args t)
                                          @ bash_words (qsub_path posix_world ''echo'' out_kwargs)])
                           two_tuples"
    by simp
  then have o: "local_outcomes (new_events posix_world w') =
            [Started [[''cd'', ''.''], [''echo'', ''pbs_array_args = a 1''],
                      [''echo'', ''a'', ''1'', ''out/'']],
             Started [[''cd'', ''.''], [''echo'', ''pbs_array_args = b 2''],
                      [''echo'', ''b'', ''2'', ''out/'']]]"
    by (simp add: cd p w1 w2 two_tuples_def str_args_a1 str_args_b2 bash_words_a1 bash_words_b2
        bash_words_echo_word)
  show ?thesis
    by (intro conjI, (rule h1 h2 h3 p)+, rule exI [of _ w'], intro conjI) (rule q md' o)+
qed




end
